theory Spec2Isabelle
  imports Complex_Main "HOL-Library.Word"
begin

section \<open>Errors\<close>

text \<open>
  Every \<^verbatim>\<open>assert\<close> and \<^verbatim>\<open>raise\<close> of \<^verbatim>\<open>mpnum/povm/mppovm.py\<close> is a branch
  of the model. An assertion error carries the text of the asserted expression, so
  that the assertion sites stay apart; a value error carries its message.
\<close>

datatype error =
    AssertionError string
  | ValueError string
  | IndexError
  | StopIteration

section \<open>Index arithmetic of dense arrays\<close>

text \<open>
  Python floats and complex numbers are idealised as the exact reals and complex
  numbers; comparisons against the tolerance \<^verbatim>\<open>eps\<close> are kept as written.
  Dense arrays are row-major (C order), as numpy's are.
\<close>

fun ravel_multi_index :: "nat list \<Rightarrow> nat list \<Rightarrow> nat" where
  "ravel_multi_index (i # is) (d # ds) = i * prod_list ds + ravel_multi_index is ds"
| "ravel_multi_index _ _ = 0"

fun unravel_index :: "nat \<Rightarrow> nat list \<Rightarrow> nat list" where
  "unravel_index k [] = []"
| "unravel_index k (d # ds) = (k div prod_list ds) # unravel_index (k mod prod_list ds) ds"

text \<open>All multi-indices of an array of the given shape, in row-major order.\<close>

definition indices :: "nat list \<Rightarrow> nat list list" where
  "indices shape = product_lists (map (\<lambda>d. [0..<d]) shape)"

text \<open>All per-site index tuples of a chain with the given per-site shapes.\<close>

definition site_indices :: "nat list list \<Rightarrow> nat list list list" where
  "site_indices shapes = product_lists (map indices shapes)"

definition index_of :: "'a list \<Rightarrow> 'a \<Rightarrow> nat" where
  "index_of xs a = length (takeWhile (\<lambda>b. b \<noteq> a) xs)"

definition rest_axes :: "nat \<Rightarrow> nat list \<Rightarrow> nat list" where
  "rest_axes n ax = filter (\<lambda>p. p \<notin> set ax) [0..<n]"

text \<open>
  The index of an \<open>n\<close>-axis array whose axes \<open>ax\<close> carry the values \<open>c\<close> and whose
  remaining axes carry, in order, the values \<open>r\<close>.
\<close>

definition place :: "nat \<Rightarrow> nat list \<Rightarrow> nat list \<Rightarrow> nat list \<Rightarrow> nat list" where
  "place n ax c r =
     map (\<lambda>p. if p \<in> set ax then c ! index_of ax p else r ! index_of (rest_axes n ax) p) [0..<n]"

definition norm_axis :: "nat \<Rightarrow> int \<Rightarrow> nat" where
  "norm_axis n a = (if a < 0 then nat (int n + a) else nat a)"

section \<open>Tensor chains\<close>

text \<open>
  Modelled from the spec: the module \<^verbatim>\<open>mpnum.mparray\<close> (class \<^verbatim>\<open>MPArray\<close>, \<^verbatim>\<open>dot\<close>,
  \<^verbatim>\<open>prune\<close>) is not part of the sources at hand. A chain is modelled by what it
  denotes: the physical dimensions of every site (\<open>pdims\<close>) and the entry of the
  dense tensor at every tuple of per-site indices (\<open>el\<close>). Bond dimensions do not
  occur in any operation of the measurement layer.
\<close>

record mpa =
  pdims :: "nat list list"
  el :: "nat list list \<Rightarrow> complex"

definition len :: "mpa \<Rightarrow> nat" where
  "len A = length (pdims A)"

definition plegs :: "mpa \<Rightarrow> nat list" where
  "plegs A = map length (pdims A)"

text \<open>Modelled from the spec: \<^verbatim>\<open>MPArray.transpose(axes)\<close>, the index transpose of
  the physical legs of every site (numpy's convention: axis \<open>k\<close> of the result is
  axis \<open>axes[k]\<close> of the operand).\<close>

definition transpose_mpa :: "nat list \<Rightarrow> mpa \<Rightarrow> mpa" where
  "transpose_mpa axes A =
     \<lparr>pdims = map (\<lambda>pd. map (\<lambda>a. pd ! a) axes) (pdims A),
      el = (\<lambda>idx. el A (map (\<lambda>i. map (\<lambda>a. i ! index_of axes a) [0..<length axes]) idx))\<rparr>"

definition resolve_shape :: "nat \<Rightarrow> int list \<Rightarrow> nat list" where
  "resolve_shape sz sh =
     map (\<lambda>d. if d = - 1 then sz div nat (prod_list (filter (\<lambda>x. x \<noteq> - 1) sh)) else nat d) sh"

text \<open>Modelled from the spec: \<^verbatim>\<open>MPArray.reshape(newshapes)\<close>, the row-major reshape
  of the physical legs of every site; \<open>-1\<close> stands for the dimension that is left.\<close>

definition reshape :: "int list list \<Rightarrow> mpa \<Rightarrow> mpa" where
  "reshape newshapes A =
     (let new = map (\<lambda>(old, sh). resolve_shape (prod_list old) sh) (zip (pdims A) newshapes)
      in \<lparr>pdims = new,
          el = (\<lambda>idx. el A (map (\<lambda>(old, nw, i). unravel_index (ravel_multi_index i nw) old)
                              (zip (pdims A) (zip new idx))))\<rparr>)"

text \<open>Modelled from the spec: \<^verbatim>\<open>MPArray.ravel()\<close>, all physical legs of a site merged
  into one (\<^verbatim>\<open>reshape((-1,))\<close>).\<close>

definition ravel :: "mpa \<Rightarrow> mpa" where
  "ravel A = reshape (map (\<lambda>_. [- 1]) (pdims A)) A"

text \<open>Modelled from the spec: \<^verbatim>\<open>MPArray.conj()\<close>, the elementwise conjugate.\<close>

definition conj_mpa :: "mpa \<Rightarrow> mpa" where
  "conj_mpa A = \<lparr>pdims = pdims A, el = (\<lambda>idx. cnj (el A idx))\<rparr>"

text \<open>
  Modelled from the spec: \<^verbatim>\<open>mp.dot(A, B, axes)\<close>, the generalised contraction. At
  every site the legs \<open>fst axes\<close> of \<open>A\<close> are contracted with the legs \<open>snd axes\<close>
  of \<open>B\<close>; the site of the result has the remaining legs of \<open>A\<close> followed by the
  remaining legs of \<open>B\<close>. A negative axis counts from the last leg.
\<close>

definition dot :: "mpa \<Rightarrow> mpa \<Rightarrow> int list \<times> int list \<Rightarrow> mpa" where
  "dot A B axes =
     (let axA = (\<lambda>s. map (norm_axis (length (pdims A ! s))) (fst axes));
          axB = (\<lambda>s. map (norm_axis (length (pdims B ! s))) (snd axes));
          nA = (\<lambda>s. length (pdims A ! s));
          nB = (\<lambda>s. length (pdims B ! s));
          sites = [0..<length (pdims A)]
      in \<lparr>pdims = map (\<lambda>s. map (\<lambda>a. pdims A ! s ! a) (rest_axes (nA s) (axA s)) @
                            map (\<lambda>a. pdims B ! s ! a) (rest_axes (nB s) (axB s))) sites,
          el = (\<lambda>idx. sum_list (map
                 (\<lambda>c. el A (map (\<lambda>s. place (nA s) (axA s) (c ! s)
                                     (take (nA s - length (fst axes)) (idx ! s))) sites)
                    * el B (map (\<lambda>s. place (nB s) (axB s) (c ! s)
                                     (drop (nA s - length (fst axes)) (idx ! s))) sites))
                 (site_indices (map (\<lambda>s. map (\<lambda>a. pdims A ! s ! a) (axA s)) sites))))\<rparr>)"

text \<open>Modelled from the spec: \<^verbatim>\<open>MPArray.sum(axes)\<close> with one tuple of axes per
  site, and \<^verbatim>\<open>MPArray.sum()\<close> over everything.\<close>

definition sum_axes :: "nat list list \<Rightarrow> mpa \<Rightarrow> mpa" where
  "sum_axes axes A =
     (let sites = [0..<length (pdims A)];
          n = (\<lambda>s. length (pdims A ! s))
      in \<lparr>pdims = map (\<lambda>s. map (\<lambda>a. pdims A ! s ! a) (rest_axes (n s) (axes ! s))) sites,
          el = (\<lambda>idx. sum_list (map
                 (\<lambda>c. el A (map (\<lambda>s. place (n s) (axes ! s) (c ! s) (idx ! s)) sites))
                 (site_indices (map (\<lambda>s. map (\<lambda>a. pdims A ! s ! a) (axes ! s)) sites))))\<rparr>)"

definition sum_all :: "mpa \<Rightarrow> complex" where
  "sum_all A = sum_list (map (el A) (site_indices (pdims A)))"

text \<open>
  Modelled from the spec: \<^verbatim>\<open>mp.prune(A, singletons)\<close>. Sites without physical legs
  are contracted into their neighbours, so they leave the chain; with
  \<^verbatim>\<open>singletons=True\<close> the sites whose physical dimensions are all 1 lose their legs
  first.
\<close>

fun unprune :: "nat list list \<Rightarrow> nat list list \<Rightarrow> nat list list" where
  "unprune [] idx = []"
| "unprune (pd # pds) idx =
     (if pd = [] then [] # unprune pds idx
      else (case idx of [] \<Rightarrow> [] # unprune pds [] | i # idx' \<Rightarrow> i # unprune pds idx'))"

definition prune :: "mpa \<Rightarrow> bool \<Rightarrow> mpa" where
  "prune A singletons =
     (let B = (if singletons \<and> list_ex (\<lambda>p. prod_list p = 1) (pdims A)
               then reshape (map (\<lambda>p. if prod_list p = 1 then [] else map int p) (pdims A)) A
               else A)
      in \<lparr>pdims = filter (\<lambda>pd. pd \<noteq> []) (pdims B),
          el = (\<lambda>idx. el B (unprune (pdims B) idx))\<rparr>)"

text \<open>
  Modelled from the spec: \<^verbatim>\<open>A[i_1, ..., i_k, :, ..., :]\<close>, one item per site, an
  integer (the first leg of the site is fixed to it) or a full slice.
\<close>

definition getitem :: "nat option list \<Rightarrow> mpa \<Rightarrow> error + mpa" where
  "getitem items A =
     (if list_ex (\<lambda>(pd, it). case it of None \<Rightarrow> False | Some i \<Rightarrow> pd = [] \<or> \<not> i < hd pd)
           (zip (pdims A) items)
      then Inl IndexError
      else Inr \<lparr>pdims = map (\<lambda>(pd, it). case it of None \<Rightarrow> pd | Some i \<Rightarrow> tl pd) (zip (pdims A) items),
               el = (\<lambda>idx. el A (map (\<lambda>(it, i). case it of None \<Rightarrow> i | Some v \<Rightarrow> v # i)
                                     (zip items idx)))\<rparr>)"

text \<open>Dense arrays: a shape and the entries in row-major order (numpy's \<^verbatim>\<open>flat\<close>).\<close>

record 'a ndarray =
  shape :: "nat list"
  flat :: "'a list"

fun split_sites :: "nat list \<Rightarrow> nat list \<Rightarrow> nat list list" where
  "split_sites [] i = []"
| "split_sites (n # ns) i = take n i # split_sites ns (drop n i)"

text \<open>Modelled from the spec: \<^verbatim>\<open>MPArray.to_array()\<close>, the dense array with the legs
  of site 1 first, then those of site 2, and so on.\<close>

definition to_array :: "mpa \<Rightarrow> complex ndarray" where
  "to_array A =
     \<lparr>shape = concat (pdims A),
      flat = map (\<lambda>i. el A (split_sites (plegs A) i)) (indices (concat (pdims A)))\<rparr>"

section \<open>The measurement layer: \<^verbatim>\<open>class MPPovm(mp.MPArray)\<close>\<close>

text \<open>The constructor: three physical legs per site, of which the last two agree.\<close>

definition MPPovm :: "mpa \<Rightarrow> error + mpa" where
  "MPPovm A =
     (if \<not> list_all (\<lambda>plegs. plegs = 3) (plegs A)
      then Inl (AssertionError ''all(plegs == 3 for plegs in self.plegs)'')
      else if \<not> list_all (\<lambda>pdims. pdims ! 1 = pdims ! 2) (pdims A)
      then Inl (AssertionError ''all(pdims[1] == pdims[2] for pdims in self.pdims)'')
      else Inr A)"

definition outdims :: "mpa \<Rightarrow> nat list" where
  "outdims self = map (\<lambda>pd. pd ! 0) (pdims self)"

definition nsoutdims :: "mpa \<Rightarrow> nat list" where
  "nsoutdims self = filter (\<lambda>d. d > 1) (map (\<lambda>pd. pd ! 0) (pdims self))"

definition hdims :: "mpa \<Rightarrow> nat list" where
  "hdims self = map (\<lambda>pd. pd ! 1) (pdims self)"

definition probability_map :: "mpa \<Rightarrow> mpa" where
  "probability_map self =
     reshape (map (\<lambda>pdim. [int (pdim ! 0), - 1]) (pdims self)) (transpose_mpa [0, 2, 1] self)"

text \<open>
  The module \<^verbatim>\<open>mpnum.mpsmpo\<close> (reductions of a state to the windows of a given
  width, and the density operator of a purification) is not part of the sources
  at hand; its four functions are taken as parameters.
\<close>

record mpsmpo =
  reductions_mps_as_pmps :: "mpa \<Rightarrow> nat \<Rightarrow> mpa list"
  reductions_mpo :: "mpa \<Rightarrow> nat \<Rightarrow> mpa list"
  reductions_pmps :: "mpa \<Rightarrow> nat \<Rightarrow> mpa list"
  pmps_to_mpo :: "mpa \<Rightarrow> mpa"

text \<open>Lines 133--137 of \<^verbatim>\<open>expectations\<close>: the mode that \<^verbatim>\<open>'auto'\<close> stands for.\<close>

definition infer_mode :: "mpa \<Rightarrow> string \<Rightarrow> string" where
  "infer_mode state mode =
     (if mode = ''auto''
      then (if list_all (\<lambda>pleg. pleg = 1) (plegs state) then ''mps''
            else if list_all (\<lambda>pleg. pleg = 2) (plegs state) then ''mpdo''
            else mode)
      else mode)"

text \<open>
  \<^verbatim>\<open>expectations\<close> is a generator: nothing of its body runs before the first
  \<^verbatim>\<open>next\<close>. The model returns what consuming it gives: the error raised before
  the first element, or the finite sequence of probability chains, one per window.
\<close>

definition expectations :: "mpsmpo \<Rightarrow> mpa \<Rightarrow> mpa \<Rightarrow> string \<Rightarrow> error + mpa list" where
  "expectations M self state mode =
     (if \<not> len self \<le> len state then Inl (AssertionError ''len(self) <= len(mpa)'')
      else
        let mode = infer_mode state mode;
            pmap = probability_map self
        in if mode = ''mps''
           then Inr (map (\<lambda>psi_red. dot pmap (ravel (pmps_to_mpo M psi_red)) ([- 1], [0]))
                      (reductions_mps_as_pmps M state (len self)))
           else if mode = ''mpdo''
           then Inr (map (\<lambda>rho_red. dot pmap (ravel rho_red) ([- 1], [0]))
                      (reductions_mpo M state (len self)))
           else if mode = ''pmps''
           then Inr (map (\<lambda>psi_red. dot pmap (ravel (pmps_to_mpo M psi_red)) ([- 1], [0]))
                      (reductions_pmps M state (len self)))
           else Inl (ValueError ''Could not understand data dype.''))"

section \<open>Sampling\<close>

text \<open>
  The random source is a parameter: \<open>rng g a p\<close> is \<^verbatim>\<open>rng.choice(a, p=p)\<close> in the
  state \<open>g\<close> of the generator, the index chosen and the next state.
\<close>

type_synonym 'g chooser = "'g \<Rightarrow> nat \<Rightarrow> real list \<Rightarrow> nat \<times> 'g"

text \<open>\<^verbatim>\<open>range(0, n, step)\<close>.\<close>

definition range_step :: "nat \<Rightarrow> nat \<Rightarrow> nat list" where
  "range_step n step = map (\<lambda>k. k * step) [0..<(n + step - 1) div step]"

text \<open>
  \<^verbatim>\<open>out[a:b] = vals\<close> on a row of the output: the slice is cut at the end of the
  row, and numpy takes as many values as the slice has entries, or one value for
  all of them.
\<close>

definition set_slice :: "'a list \<Rightarrow> nat \<Rightarrow> nat \<Rightarrow> 'a list \<Rightarrow> error + 'a list" where
  "set_slice out a b vals =
     (let m = min b (length out) - min a (length out)
      in if length vals = m then Inr (take a out @ vals @ drop (a + m) out)
         else if length vals = 1 then Inr (take a out @ replicate m (hd vals) @ drop (a + m) out)
         else Inl (ValueError ''could not broadcast input array''))"

text \<open>\<^verbatim>\<open>out[i, pos] = vals[pos]\<close> for every position of \<open>vals\<close>.\<close>

definition set_cols :: "'a list \<Rightarrow> 'a list \<Rightarrow> 'a list" where
  "set_cols row vals = vals @ drop (length vals) row"

text \<open>
  One pass of the loop of \<^verbatim>\<open>_sample_cond_single\<close>. The state of the loop is the
  row \<open>out\<close>, the probability \<open>out_p\<close> of the partial outcome and the generator.
  Dividing by \<open>out_p = 0.0\<close> gives numpy's \<^verbatim>\<open>nan\<close> and \<^verbatim>\<open>inf\<close> entries, on which
  the first assertion of the pass fails.
\<close>

definition cond_step ::
  "'g chooser \<Rightarrow> mpa list \<Rightarrow> nat \<Rightarrow> real \<Rightarrow> nat \<Rightarrow> 8 word list \<times> real \<times> 'g
     \<Rightarrow> error + 8 word list \<times> real \<times> 'g" where
  "cond_step rng marginal_p n_group eps n_out st =
     (case st of (out, out_p, g) \<Rightarrow>
      let n_sites = len (last marginal_p);
          p = marginal_p ! min n_sites (n_out + n_group)
      in case getitem (map (\<lambda>w. Some (unat w)) (take n_out out) @ replicate (len p - n_out) None) p of
           Inl e \<Rightarrow> Inl e
         | Inr p \<Rightarrow>
           let arr = to_array (prune p False);
               p = map (\<lambda>z. z / complex_of_real out_p) (flat arr)
           in if out_p = 0 \<or> \<not> list_all (\<lambda>z. \<bar>Im z\<bar> \<le> eps) p
              then Inl (AssertionError ''(abs(p.imag) <= eps).all()'')
              else
                let p = map Re p
                in if \<not> list_all (\<lambda>x. x \<ge> - eps) p
                   then Inl (AssertionError ''(p >= -eps).all()'')
                   else
                     let p = map (\<lambda>x. if x < 0 then 0 else x) p
                     in if \<not> \<bar>sum_list p - 1\<bar> \<le> eps
                        then Inl (AssertionError ''abs(p.sum() - 1.0) <= eps'')
                        else
                          (case rng g (length p) p of (choice, g') \<Rightarrow>
                             if \<not> choice < length p then Inl (ValueError ''index out of bounds'')
                             else
                               (case set_slice out n_out (n_out + n_group)
                                       (map word_of_nat (unravel_index choice (shape arr))) of
                                  Inl e \<Rightarrow> Inl e
                                | Inr out \<Rightarrow> Inr (out, out_p * p ! choice, g'))))"

fun cond_loop ::
  "'g chooser \<Rightarrow> mpa list \<Rightarrow> nat \<Rightarrow> real \<Rightarrow> nat list \<Rightarrow> 8 word list \<times> real \<times> 'g
     \<Rightarrow> error + 8 word list \<times> real \<times> 'g" where
  "cond_loop rng marginal_p n_group eps [] st = Inr st"
| "cond_loop rng marginal_p n_group eps (n_out # ns) st =
     (case cond_step rng marginal_p n_group eps n_out st of
        Inl e \<Rightarrow> Inl e
      | Inr st' \<Rightarrow> cond_loop rng marginal_p n_group eps ns st')"

definition sample_cond_single ::
  "'g chooser \<Rightarrow> 'g \<Rightarrow> mpa list \<Rightarrow> nat \<Rightarrow> 8 word list \<Rightarrow> real \<Rightarrow> error + 8 word list \<times> 'g" where
  "sample_cond_single rng g marginal_p n_group out eps =
     (let n_sites = len (last marginal_p)
      in if n_group = 0 then Inl (ValueError ''range() arg 3 must not be zero'')
         else case cond_loop rng marginal_p n_group eps (range_step n_sites n_group) (out, 1, g) of
                Inl e \<Rightarrow> Inl e
              | Inr (out, out_p, g') \<Rightarrow>
                (case getitem (map (\<lambda>w. Some (unat w)) out) (last marginal_p) of
                   Inl e \<Rightarrow> Inl e
                 | Inr p \<Rightarrow>
                   if \<not> cmod (hd (flat (to_array p)) - complex_of_real out_p) \<le> eps
                   then Inl (AssertionError ''abs(p - out_p) <= eps'')
                   else Inr (out, g')))"

text \<open>
  The marginals of \<^verbatim>\<open>_sample_cond\<close>: \<open>marginals probab k\<close> is \<^verbatim>\<open>marginal_p[k]\<close>,
  computed from \<^verbatim>\<open>marginal_p[k + 1]\<close> by summing over the leg of the last site.
\<close>

fun marginal_from :: "mpa \<Rightarrow> nat \<Rightarrow> mpa list" where
  "marginal_from probab 0 = [probab]"
| "marginal_from probab (Suc j) =
     (let ms = marginal_from probab j;
          n_sites = len probab - Suc j;
          p = sum_axes (replicate n_sites [] @ [[0]]) (hd ms)
      in (if n_sites > 0 then prune p False else p) # ms)"

definition marginals :: "mpa \<Rightarrow> mpa list" where
  "marginals probab = marginal_from probab (len probab)"

fun sample_rows ::
  "'g chooser \<Rightarrow> 'g \<Rightarrow> mpa list \<Rightarrow> nat \<Rightarrow> 8 word list list \<Rightarrow> real \<Rightarrow> error + 8 word list list \<times> 'g" where
  "sample_rows rng g marginal_p n_group [] eps = Inr ([], g)"
| "sample_rows rng g marginal_p n_group (row # rows) eps =
     (case sample_cond_single rng g marginal_p n_group row eps of
        Inl e \<Rightarrow> Inl e
      | Inr (row', g') \<Rightarrow>
        (case sample_rows rng g' marginal_p n_group rows eps of
           Inl e \<Rightarrow> Inl e
         | Inr (rows', g'') \<Rightarrow> Inr (row' # rows', g'')))"

definition sample_cond ::
  "'g chooser \<Rightarrow> 'g \<Rightarrow> mpa \<Rightarrow> nat \<Rightarrow> 8 word list list \<Rightarrow> real \<Rightarrow> error + 8 word list list \<times> 'g" where
  "sample_cond rng g probab n_group out eps =
     (let marginal_p = marginals probab
      in if \<not> cmod (el (hd marginal_p) [[]] - 1) \<le> eps
         then Inl (AssertionError ''abs(marginal_p[0] - 1.0) <= eps'')
         else sample_rows rng g marginal_p n_group out eps)"

text \<open>\<^verbatim>\<open>rng.choice(a, n_samples, p=p)\<close>: \<open>n_samples\<close> independent choices.\<close>

fun choices :: "'g chooser \<Rightarrow> 'g \<Rightarrow> nat \<Rightarrow> nat \<Rightarrow> real list \<Rightarrow> nat list \<times> 'g" where
  "choices rng g 0 a p = ([], g)"
| "choices rng g (Suc n) a p =
     (case rng g a p of (c, g') \<Rightarrow>
        (case choices rng g' n a p of (cs, g'') \<Rightarrow> (c # cs, g'')))"

definition sample_direct ::
  "'g chooser \<Rightarrow> 'g \<Rightarrow> mpa \<Rightarrow> nat \<Rightarrow> 8 word list list \<Rightarrow> real \<Rightarrow> error + 8 word list list \<times> 'g" where
  "sample_direct rng g probab n_samples out eps =
     (let arr = to_array (prune probab True);
          probab = flat arr
      in if \<not> list_all (\<lambda>z. \<bar>Im z\<bar> \<le> eps) probab
         then Inl (AssertionError ''(abs(probab.imag) <= eps).all()'')
         else
           let probab = map Re probab
           in if \<not> list_all (\<lambda>x. x \<ge> - eps) probab
              then Inl (AssertionError ''(probab >= -eps).all()'')
              else
                let probab = map (\<lambda>x. if x < 0 then 0 else x) probab
                in if \<not> \<bar>sum_list probab - 1\<bar> \<le> eps
                   then Inl (AssertionError ''abs(probab.sum() - 1.0) <= eps'')
                   else
                     (case choices rng g n_samples (length probab) probab of (cs, g') \<Rightarrow>
                        if \<not> list_all (\<lambda>c. c < length probab) cs
                        then Inl (ValueError ''index out of bounds'')
                        else if shape arr = [] then Inr (out, g')
                        else if list_ex (\<lambda>row. length row < length (shape arr)) out
                        then Inl IndexError
                        else if length out = n_samples
                        then Inr (map (\<lambda>(row, c). set_cols row
                                         (map word_of_nat (unravel_index c (shape arr))))
                                    (zip out cs), g')
                        else if n_samples = 1
                        then Inr (map (\<lambda>row. set_cols row
                                         (map word_of_nat (unravel_index (hd cs) (shape arr)))) out, g')
                        else Inl (ValueError ''could not broadcast input array'')))"

text \<open>
  The comparison \<^verbatim>\<open>out < np.array(self.nsoutdims)[None, :]\<close> of the last
  assertion of \<^verbatim>\<open>sample\<close>, with numpy's broadcasting of a row of one entry.
\<close>

definition rows_below :: "8 word list list \<Rightarrow> nat \<Rightarrow> nat list \<Rightarrow> error + bool" where
  "rows_below out ncols ds =
     (if ncols = length ds
      then Inr (list_all (\<lambda>row. list_all (\<lambda>(w, d). unat w < d) (zip row ds)) out)
      else if length ds = 1
      then Inr (list_all (\<lambda>row. list_all (\<lambda>w. unat w < hd ds) row) out)
      else if ncols = 1
      then Inr (list_all (\<lambda>row. list_all (\<lambda>d. unat (hd row) < d) ds) out)
      else Inl (ValueError ''operands could not be broadcast together''))"

definition sample ::
  "mpsmpo \<Rightarrow> mpa \<Rightarrow> 'g chooser \<Rightarrow> 'g \<Rightarrow> mpa \<Rightarrow> nat \<Rightarrow> string \<Rightarrow> nat \<Rightarrow> string \<Rightarrow> real
     \<Rightarrow> error + 8 word list list \<times> 'g" where
  "sample M self rng g state n_samples method n_group mode eps =
     (if \<not> len self = len state then Inl (AssertionError ''len(self) == len(state)'')
      else case expectations M self state mode of
        Inl e \<Rightarrow> Inl e
      | Inr [] \<Rightarrow> Inl StopIteration
      | Inr (probab # _) \<Rightarrow>
        let probab = prune probab True;
            probab_sum = sum_all probab
        in if \<not> \<bar>Im probab_sum\<bar> \<le> eps then Inl (AssertionError ''abs(probab_sum.imag) <= eps'')
           else if \<not> \<bar>1 - Re probab_sum\<bar> \<le> eps
           then Inl (AssertionError ''abs(1.0 - probab_sum.real) <= eps'')
           else if \<not> list_all (\<lambda>dim. dim \<le> 255) (outdims self)
           then Inl (AssertionError ''all(dim <= 255 for dim in self.outdims)'')
           else
             let out = replicate n_samples (replicate (len probab) (0xff :: 8 word));
                 res = (if method = ''cond'' then sample_cond rng g probab n_group out eps
                        else if method = ''direct'' then sample_direct rng g probab n_samples out eps
                        else Inl (ValueError ''Unknown method''))
             in case res of
                  Inl e \<Rightarrow> Inl e
                | Inr (out, g') \<Rightarrow>
                  (case rows_below out (len probab) (nsoutdims self) of
                     Inl e \<Rightarrow> Inl e
                   | Inr ok \<Rightarrow>
                     if \<not> ok then Inl (AssertionError ''(out < np.array(self.nsoutdims)[None, :]).all()'')
                     else Inr (out, g')))"

text \<open>
  \<^verbatim>\<open>count_samples\<close>: \<open>samples\<close> is a two-dimensional integer array, given by its
  number of columns \<^verbatim>\<open>samples.shape[1]\<close> and its rows.
\<close>

definition count_samples :: "mpa \<Rightarrow> nat \<times> nat list list \<Rightarrow> error + int ndarray" where
  "count_samples self samples =
     (case samples of (ncols, rows) \<Rightarrow>
      let n_samples = length rows;
          counts_shape = nsoutdims self
      in if \<not> ncols = length counts_shape
         then Inl (AssertionError ''samples.shape[1] == counts.ndim'')
         else
           let counts = map (\<lambda>out_num. int (length (filter (\<lambda>row. row = unravel_index out_num counts_shape) rows)))
                          [0..<prod_list counts_shape]
           in if \<not> sum_list counts = int n_samples
              then Inl (AssertionError ''counts.sum() == n_samples'')
              else Inr \<lparr>shape = counts_shape, flat = counts\<rparr>)"

text \<open>Modelled from the spec: \<^verbatim>\<open>MPArray.from_kron(factors)\<close>, the chain of bond
  dimension 1 whose dense tensor is the product of the per-site factors.\<close>

definition from_kron :: "complex ndarray list \<Rightarrow> mpa" where
  "from_kron factors =
     \<lparr>pdims = map shape factors,
      el = (\<lambda>idx. prod_list (map (\<lambda>(f, i). flat f ! ravel_multi_index i (shape f)) (zip factors idx)))\<rparr>"

definition from_local_povm :: "complex ndarray \<Rightarrow> nat \<Rightarrow> error + mpa" where
  "from_local_povm lelems width = MPPovm (from_kron (replicate width lelems))"

section \<open>Example instances\<close>

text \<open>
  The projective measurement \<open>{|0><0|, |1><1|}\<close> of a qubit, on one site and on
  two sites, and the maximally mixed state of one and of two qubits.
\<close>

definition z_elems :: "complex ndarray" where
  "z_elems = \<lparr>shape = [2, 2, 2], flat = [1, 0, 0, 0, 0, 0, 0, 1]\<rparr>"

definition z_povm :: mpa where
  "z_povm = from_kron [z_elems]"

definition z_povm2 :: mpa where
  "z_povm2 = from_kron [z_elems, z_elems]"

definition mixed_state :: mpa where
  "mixed_state = from_kron [\<lparr>shape = [2, 2], flat = [1 / 2, 0, 0, 1 / 2]\<rparr>]"

definition mixed_state2 :: mpa where
  "mixed_state2 = from_kron [\<lparr>shape = [2, 2], flat = [1 / 2, 0, 0, 1 / 2]\<rparr>,
                             \<lparr>shape = [2, 2], flat = [1 / 2, 0, 0, 1 / 2]\<rparr>]"

text \<open>
  An instance of the module \<^verbatim>\<open>mpsmpo\<close> for states given as density operators:
  the reduced state of a window is the partial trace over the sites outside of it.
  The examples do not use pure states; for them this instance yields no window.
\<close>

definition reduce_mpo :: "mpa \<Rightarrow> nat \<Rightarrow> nat \<Rightarrow> mpa" where
  "reduce_mpo A start w =
     \<lparr>pdims = take w (drop start (pdims A)),
      el = (\<lambda>idx. sum_list (map
              (\<lambda>t. el A (map (\<lambda>i. [i, i]) (take start t) @ idx @ map (\<lambda>i. [i, i]) (drop start t)))
              (indices (map hd (take start (pdims A) @ drop (start + w) (pdims A))))))\<rparr>"

definition dense_mpo :: mpsmpo where
  "dense_mpo =
     \<lparr>reductions_mps_as_pmps = (\<lambda>A w. []),
      reductions_mpo = (\<lambda>A w. map (\<lambda>start. reduce_mpo A start w) [0..<len A + 1 - w]),
      reductions_pmps = (\<lambda>A w. []),
      pmps_to_mpo = (\<lambda>A. dot A (conj_mpa A) ([1], [1]))\<rparr>"

text \<open>A random source that always chooses the first index of positive weight.\<close>

definition first_positive :: "unit chooser" where
  "first_positive g a p = (length (takeWhile (\<lambda>x. \<not> 0 < x) p), g)"

text \<open>The same instance, yielding every window twice.\<close>

definition dense_mpo_twice :: mpsmpo where
  "dense_mpo_twice =
     dense_mpo\<lparr>reductions_mpo := (\<lambda>A w. reductions_mpo dense_mpo A w @ reductions_mpo dense_mpo A w)\<rparr>"

text \<open>The probability chain of the one-site example, before and after pruning.\<close>

definition z_probab :: mpa where
  "z_probab = dot (probability_map z_povm) (ravel (reduce_mpo mixed_state 0 (Suc 0))) ([- 1], [0])"

definition z_pruned :: mpa where
  "z_pruned = prune z_probab True"

section \<open>Evaluation of the examples\<close>

lemmas eval_defs =
  upt_conv_Cons indices_def site_indices_def place_def rest_axes_def index_of_def
  norm_axis_def Let_def

lemma example_pdims:
  "pdims z_povm = [[2, 2, 2]]" "len z_povm = 1"
  "pdims z_povm2 = [[2, 2, 2], [2, 2, 2]]" "len z_povm2 = 2"
  "pdims mixed_state = [[2, 2]]" "len mixed_state = 1"
  "pdims mixed_state2 = [[2, 2], [2, 2]]" "len mixed_state2 = 2"
  by (simp_all add: z_povm_def z_povm2_def mixed_state_def mixed_state2_def from_kron_def
      z_elems_def len_def)

lemma example_plegs:
  "plegs mixed_state = [2]" "plegs mixed_state2 = [2, 2]"
  by (simp_all add: plegs_def example_pdims)

lemma z_pmap_pdims: "pdims (probability_map z_povm) = [[2, 4]]"
  by (simp add: probability_map_def z_povm_def from_kron_def z_elems_def reshape_def
      transpose_mpa_def resolve_shape_def Let_def)

lemma z_rho_pdims: "pdims (ravel (reduce_mpo mixed_state 0 (Suc 0))) = [[4]]"
  by (simp add: ravel_def reduce_mpo_def example_pdims reshape_def resolve_shape_def Let_def)

lemma z_probab_pdims: "pdims z_probab = [[2]]"
  by (simp add: z_probab_def dot_def z_pmap_pdims z_rho_pdims eval_defs)

lemma z_probab_el: "el z_probab [[0]] = 1 / 2" "el z_probab [[Suc 0]] = 1 / 2"
  by (simp_all add: z_probab_def dot_def z_pmap_pdims z_rho_pdims eval_defs)
     (simp_all add: probability_map_def z_povm_def mixed_state_def from_kron_def z_elems_def
        reshape_def transpose_mpa_def resolve_shape_def eval_defs ravel_def reduce_mpo_def)

lemma z_expectations:
  "expectations dense_mpo z_povm mixed_state ''mpdo'' = Inr [z_probab]"
  "expectations dense_mpo_twice z_povm mixed_state ''mpdo'' = Inr [z_probab, z_probab]"
  by (simp_all add: expectations_def example_pdims infer_mode_def dense_mpo_def dense_mpo_twice_def
      z_probab_def Let_def)

lemma z_pruned_pdims: "pdims z_pruned = [[2]]" "len z_pruned = 1"
  by (simp_all add: z_pruned_def prune_def z_probab_pdims len_def)

lemma z_pruned_el: "el z_pruned [[0]] = 1 / 2" "el z_pruned [[Suc 0]] = 1 / 2"
  by (simp_all add: z_pruned_def prune_def z_probab_pdims z_probab_el)

lemma z_pruned_sum: "sum_all z_pruned = 1"
  by (simp add: sum_all_def z_pruned_pdims z_pruned_el eval_defs)

lemma z_pruned_array: "to_array (prune z_pruned True) = \<lparr>shape = [2], flat = [1 / 2, 1 / 2]\<rparr>"
  by (simp add: to_array_def prune_def z_pruned_pdims z_pruned_el eval_defs plegs_def)

lemma z_sample_direct:
  "sample M z_povm first_positive () mixed_state 1 ''direct'' 1 ''mpdo'' (1 / 10) = Inr ([[0]], ())"
  if "expectations M z_povm mixed_state ''mpdo'' = Inr (z_probab # ps)"
  apply (simp add: sample_def example_pdims that flip: z_pruned_def)
  apply (simp add: z_pruned_sum z_pruned_pdims outdims_def nsoutdims_def example_pdims)
  apply (simp add: sample_direct_def z_pruned_array first_positive_def set_cols_def rows_below_def)
  done

lemma z_marginals: "marginals z_pruned = [sum_axes [[0]] z_pruned, z_pruned]"
  by (simp add: marginals_def z_pruned_pdims eval_nat_numeral Let_def)

lemma z_m0: "el (sum_axes [[0]] z_pruned) [[]] = 1" "pdims (sum_axes [[0]] z_pruned) = [[]]"
  by (simp_all add: sum_axes_def z_pruned_pdims z_pruned_el eval_defs)

lemma z_cond_step: "cond_step first_positive [sum_axes [[0]] z_pruned, z_pruned] (Suc 0) (1/10) 0 ([0xff], 1, ()) = Inr ([0], 1/2, ())"
  apply (simp add: cond_step_def z_pruned_pdims len_def getitem_def)
  apply (simp add: to_array_def prune_def z_pruned_pdims z_pruned_el eval_defs plegs_def first_positive_def set_slice_def)
  done

lemma z_single: "sample_cond_single first_positive () [sum_axes [[0]] z_pruned, z_pruned] (Suc 0) [0xff] (1/10) = Inr ([0], ())"
  apply (simp add: sample_cond_single_def range_step_def z_pruned_pdims len_def z_cond_step)
  apply (simp add: z_pruned_pdims len_def getitem_def to_array_def  eval_defs plegs_def z_pruned_el)
  done

lemma z_sample_cond:
  "sample dense_mpo z_povm first_positive () mixed_state 1 ''cond'' 1 ''mpdo'' (1 / 10) = Inr ([[0]], ())"
  apply (simp add: sample_def example_pdims z_expectations flip: z_pruned_def)
  apply (simp add: z_pruned_sum z_pruned_pdims outdims_def nsoutdims_def example_pdims)
  apply (simp add: sample_cond_def z_marginals z_m0 z_single rows_below_def)
  done


section \<open>Modes of \<^verbatim>\<open>expectations\<close>\<close>

text \<open>
  C8 (amended). Provided the state has at least as many sites as the measurement
  (otherwise the length assertion fails first), \<^verbatim>\<open>expectations(state, mode)\<close>
  fails with the invalid-mode value error exactly when \<open>mode\<close> is none of
  \<^verbatim>\<open>'mps'\<close>, \<^verbatim>\<open>'mpdo'\<close>, \<^verbatim>\<open>'pmps'\<close> and cannot be inferred. Under \<^verbatim>\<open>'auto'\<close> the
  mode is inferred as \<^verbatim>\<open>'mps'\<close> when every site of the state has one physical
  leg and as \<^verbatim>\<open>'mpdo'\<close> when every site has two; \<^verbatim>\<open>'pmps'\<close> is never inferred.
\<close>

theorem expectations_invalid_mode:
  assumes "len self \<le> len state"
  shows "(expectations M self state mode = Inl (ValueError ''Could not understand data dype.'')
            \<longleftrightarrow> mode \<noteq> ''mps'' \<and> mode \<noteq> ''mpdo'' \<and> mode \<noteq> ''pmps'' \<and>
                \<not> (mode = ''auto'' \<and> (list_all (\<lambda>pleg. pleg = 1) (plegs state) \<or>
                                       list_all (\<lambda>pleg. pleg = 2) (plegs state))))
       \<and> (list_all (\<lambda>pleg. pleg = 1) (plegs state) \<longrightarrow>
            infer_mode state ''auto'' = ''mps'' \<and>
            expectations M self state ''auto'' = expectations M self state ''mps'')
       \<and> (0 < len state \<and> list_all (\<lambda>pleg. pleg = 2) (plegs state) \<longrightarrow>
            infer_mode state ''auto'' = ''mpdo'' \<and>
            expectations M self state ''auto'' = expectations M self state ''mpdo'')
       \<and> (infer_mode state mode = ''pmps'' \<longleftrightarrow> mode = ''pmps'')"
proof -
  have two: "\<not> list_all (\<lambda>pleg. pleg = 1) (plegs state)"
    if "0 < len state" "list_all (\<lambda>pleg. pleg = 2) (plegs state)"
  proof -
    from that(1) obtain pd pds where "pdims state = pd # pds"
      by (cases "pdims state") (simp_all add: len_def)
    with that(2) show ?thesis by (simp add: plegs_def)
  qed
  have a: "expectations M self state mode = Inl (ValueError ''Could not understand data dype.'')
            \<longleftrightarrow> mode \<noteq> ''mps'' \<and> mode \<noteq> ''mpdo'' \<and> mode \<noteq> ''pmps'' \<and>
                \<not> (mode = ''auto'' \<and> (list_all (\<lambda>pleg. pleg = 1) (plegs state) \<or>
                                       list_all (\<lambda>pleg. pleg = 2) (plegs state)))"
    using assms by (auto simp add: expectations_def Let_def infer_mode_def)
  have b: "list_all (\<lambda>pleg. pleg = 1) (plegs state) \<longrightarrow>
            infer_mode state ''auto'' = ''mps'' \<and>
            expectations M self state ''auto'' = expectations M self state ''mps''"
    by (simp add: expectations_def Let_def infer_mode_def)
  have c: "0 < len state \<and> list_all (\<lambda>pleg. pleg = 2) (plegs state) \<longrightarrow>
            infer_mode state ''auto'' = ''mpdo'' \<and>
            expectations M self state ''auto'' = expectations M self state ''mpdo''"
    using two by (simp add: expectations_def Let_def infer_mode_def)
  have d: "infer_mode state mode = ''pmps'' \<longleftrightarrow> mode = ''pmps''"
    by (simp add: infer_mode_def)
  from a b c d show ?thesis by blast
qed

theorem expectations_invalid_mode_witness:
  "len z_povm \<le> len mixed_state2
   \<and> expectations dense_mpo z_povm mixed_state2 ''foo'' = Inl (ValueError ''Could not understand data dype.'')
   \<and> expectations dense_mpo z_povm mixed_state2 ''pmps'' \<noteq> Inl (ValueError ''Could not understand data dype.'')
   \<and> 0 < len mixed_state2 \<and> list_all (\<lambda>pleg. pleg = 2) (plegs mixed_state2)
   \<and> infer_mode mixed_state2 ''auto'' = ''mpdo''
   \<and> expectations dense_mpo z_povm mixed_state2 ''auto'' = expectations dense_mpo z_povm mixed_state2 ''mpdo''"
  using expectations_invalid_mode [of z_povm mixed_state2 dense_mpo "''foo''"]
    expectations_invalid_mode [of z_povm mixed_state2 dense_mpo "''pmps''"]
  by (simp add: example_pdims example_plegs)

text \<open>
  The claim as stated fails where the measurement has more sites than the state:
  with an unknown mode the failure is the length assertion, not the value error.
\<close>

theorem expectations_invalid_mode_counterexample:
  "expectations dense_mpo z_povm2 mixed_state ''foo'' = Inl (AssertionError ''len(self) <= len(mpa)'')
   \<and> ''foo'' \<noteq> ''mps'' \<and> ''foo'' \<noteq> ''mpdo'' \<and> ''foo'' \<noteq> ''pmps'' \<and> ''foo'' \<noteq> ''auto''"
  by (simp add: expectations_def example_pdims)

section \<open>\<^verbatim>\<open>sample\<close> needs a measurement on all sites of the state\<close>

text \<open>
  C10. \<^verbatim>\<open>sample\<close> fails with the assertion \<^verbatim>\<open>len(self) == len(state)\<close> whenever
  the numbers of sites differ, although \<^verbatim>\<open>expectations\<close> passes its own length
  assertion for every state with at least as many sites as the measurement. So a
  sample is returned only when the measurement covers the whole state, and of the
  sequence of \<^verbatim>\<open>expectations\<close> only the first probability chain is used.
\<close>

theorem sample_needs_equal_length:
  "(len self \<noteq> len state \<longrightarrow>
      sample M self rng g state n_samples method n_group mode eps
        = Inl (AssertionError ''len(self) == len(state)''))
   \<and> (len self \<le> len state \<longrightarrow>
        expectations M self state mode \<noteq> Inl (AssertionError ''len(self) <= len(mpa)''))
   \<and> (sample M self rng g state n_samples method n_group mode eps = Inr r \<longrightarrow>
        len self = len state)
   \<and> (expectations M self state mode = Inr (p # ps) \<and> expectations M' self state mode = Inr (p # ps') \<longrightarrow>
        sample M self rng g state n_samples method n_group mode eps
          = sample M' self rng g state n_samples method n_group mode eps)"
proof -
  have a: "len self \<noteq> len state \<longrightarrow>
      sample M self rng g state n_samples method n_group mode eps
        = Inl (AssertionError ''len(self) == len(state)'')"
    by (simp add: sample_def)
  have b: "len self \<le> len state \<longrightarrow>
        expectations M self state mode \<noteq> Inl (AssertionError ''len(self) <= len(mpa)'')"
    by (simp add: expectations_def Let_def)
  have c: "sample M self rng g state n_samples method n_group mode eps = Inr r \<longrightarrow>
        len self = len state"
    by (simp add: sample_def)
  have d: "expectations M self state mode = Inr (p # ps) \<and> expectations M' self state mode = Inr (p # ps') \<longrightarrow>
        sample M self rng g state n_samples method n_group mode eps
          = sample M' self rng g state n_samples method n_group mode eps"
    by (simp add: sample_def)
  from a b c d show ?thesis by blast
qed

theorem sample_needs_equal_length_witness:
  "len z_povm \<noteq> len mixed_state2
   \<and> sample dense_mpo z_povm first_positive () mixed_state2 1 ''direct'' 1 ''mpdo'' (1 / 10)
       = Inl (AssertionError ''len(self) == len(state)'')
   \<and> len z_povm \<le> len mixed_state2
   \<and> expectations dense_mpo z_povm mixed_state2 ''mpdo'' \<noteq> Inl (AssertionError ''len(self) <= len(mpa)'')
   \<and> sample dense_mpo z_povm first_positive () mixed_state 1 ''direct'' 1 ''mpdo'' (1 / 10) = Inr ([[0]], ())
   \<and> len z_povm = len mixed_state
   \<and> expectations dense_mpo z_povm mixed_state ''mpdo'' = Inr [z_probab]
   \<and> expectations dense_mpo_twice z_povm mixed_state ''mpdo'' = Inr [z_probab, z_probab]
   \<and> sample dense_mpo_twice z_povm first_positive () mixed_state 1 ''direct'' 1 ''mpdo'' (1 / 10)
       = Inr ([[0]], ())"
  using sample_needs_equal_length [of z_povm mixed_state2 dense_mpo first_positive "()" 1 "''direct''" 1
      "''mpdo''" "1 / 10"]
    sample_needs_equal_length [of z_povm mixed_state dense_mpo first_positive "()" 1 "''direct''" 1
      "''mpdo''" "1 / 10" "([[0]], ())" z_probab "[]" dense_mpo_twice "[z_probab]"]
    z_sample_direct [of dense_mpo "[]"]
  by (simp add: example_pdims z_expectations)

section \<open>Index arithmetic: \<^verbatim>\<open>unravel_index\<close> and \<^verbatim>\<open>ravel_multi_index\<close> are inverse\<close>

lemma ravel_lt:
  "list_all2 (<) t ds \<Longrightarrow> ravel_multi_index t ds < prod_list ds"
proof (induction t ds rule: list_all2_induct)
  case Nil
  then show ?case by simp
next
  case (Cons i t d ds)
  have "i * prod_list ds + ravel_multi_index t ds < i * prod_list ds + prod_list ds"
    using Cons.IH by simp
  also have "\<dots> = Suc i * prod_list ds" by simp
  also have "\<dots> \<le> d * prod_list ds"
    using Cons.hyps(1) by (intro mult_le_mono1) simp
  finally show ?case by simp
qed

lemma unravel_ravel:
  "list_all2 (<) t ds \<Longrightarrow> unravel_index (ravel_multi_index t ds) ds = t"
proof (induction t ds rule: list_all2_induct)
  case Nil
  then show ?case by simp
next
  case (Cons i t d ds)
  have lt: "ravel_multi_index t ds < prod_list ds"
    using Cons.hyps(2) by (rule ravel_lt)
  then show ?case using Cons.IH by simp
qed

lemma unravel_in_range:
  "k < prod_list ds \<Longrightarrow> list_all2 (<) (unravel_index k ds) ds"
proof (induction ds arbitrary: k)
  case Nil
  then show ?case by simp
next
  case (Cons d ds)
  from Cons.prems have pos: "0 < prod_list ds"
    by (cases "prod_list ds = 0") simp_all
  have "k div prod_list ds < d"
    using Cons.prems pos by (simp add: less_mult_imp_div_less)
  moreover have "list_all2 (<) (unravel_index (k mod prod_list ds) ds) ds"
    using pos by (intro Cons.IH) simp
  ultimately show ?case by simp
qed

lemma ravel_unravel:
  "k < prod_list ds \<Longrightarrow> ravel_multi_index (unravel_index k ds) ds = k"
proof (induction ds arbitrary: k)
  case Nil
  then show ?case by simp
next
  case (Cons d ds)
  from Cons.prems have pos: "0 < prod_list ds"
    by (cases "prod_list ds = 0") simp_all
  have "ravel_multi_index (unravel_index (k mod prod_list ds) ds) ds = k mod prod_list ds"
    using pos by (intro Cons.IH) simp
  then show ?case by simp
qed

lemma count_unique:
  assumes "k0 < n" "u k0 = row" "\<And>k. k < n \<Longrightarrow> u k = row \<Longrightarrow> k = k0"
  shows "sum_list (map (\<lambda>k. int (length (filter (\<lambda>r. r = u k) [row]))) [0..<n]) = 1"
proof -
  have eq: "int (length (filter (\<lambda>r. r = u k) [row])) = (if k = k0 then 1 else 0)"
    if "k \<in> {0..<n}" for k
  proof (cases "k = k0")
    case True
    then show ?thesis using assms(2) by simp
  next
    case False
    with assms(3) [of k] that have "u k \<noteq> row" by auto
    with False show ?thesis by auto
  qed
  have "sum_list (map (\<lambda>k. int (length (filter (\<lambda>r. r = u k) [row]))) [0..<n])
        = (\<Sum>k\<in>{0..<n}. int (length (filter (\<lambda>r. r = u k) [row])))"
    by (simp only: interv_sum_list_conv_sum_set_nat set_upt)
  also have "\<dots> = (\<Sum>k\<in>{0..<n}. if k = k0 then 1 else 0)"
    by (rule sum.cong [OF refl eq])
  also have "\<dots> = 1" using assms(1) by simp
  finally show ?thesis .
qed

lemma counts_total:
  assumes "\<forall>row\<in>set rows. list_all2 (<) row ds"
  shows "sum_list (map (\<lambda>k. int (length (filter (\<lambda>row. row = unravel_index k ds) rows))) [0..<prod_list ds])
         = int (length rows)"
  using assms
proof (induction rows)
  case Nil
  then show ?case by simp
next
  case (Cons row rows)
  let ?n = "prod_list ds"
  have in_range: "list_all2 (<) row ds" using Cons.prems by simp
  have one: "sum_list (map (\<lambda>k. int (length (filter (\<lambda>r. r = unravel_index k ds) [row]))) [0..<?n]) = 1"
  proof (rule count_unique)
    show "ravel_multi_index row ds < ?n" using in_range by (rule ravel_lt)
    show "unravel_index (ravel_multi_index row ds) ds = row" using in_range by (rule unravel_ravel)
    show "k = ravel_multi_index row ds" if "k < ?n" "unravel_index k ds = row" for k
      using ravel_unravel [OF that(1)] that(2) by simp
  qed
  have "map (\<lambda>k. int (length (filter (\<lambda>r. r = unravel_index k ds) (row # rows)))) [0..<?n]
        = map (\<lambda>k. int (length (filter (\<lambda>r. r = unravel_index k ds) [row]))
                   + int (length (filter (\<lambda>r. r = unravel_index k ds) rows))) [0..<?n]"
    by simp
  then have "sum_list (map (\<lambda>k. int (length (filter (\<lambda>r. r = unravel_index k ds) (row # rows)))) [0..<?n])
        = sum_list (map (\<lambda>k. int (length (filter (\<lambda>r. r = unravel_index k ds) [row]))) [0..<?n])
          + sum_list (map (\<lambda>k. int (length (filter (\<lambda>r. r = unravel_index k ds) rows))) [0..<?n])"
    by (simp only: sum_list_addf)
  also have "\<dots> = 1 + int (length rows)"
    using one Cons.IH Cons.prems by simp
  finally show ?case by simp
qed

section \<open>\<^verbatim>\<open>count_samples\<close> is the histogram of the samples\<close>

text \<open>
  C7. For a batch of samples with one column per non-singleton outcome dimension
  and every entry below the dimension of its column, \<^verbatim>\<open>count_samples\<close> returns an
  array of integers whose shape is \<^verbatim>\<open>nsoutdims\<close>, whose entry at every outcome
  tuple is the number of rows equal to that tuple, and whose sum is the number of
  samples, so that the assertion on the sum passes.
\<close>

theorem count_samples_histogram:
  assumes "\<forall>row\<in>set rows. list_all2 (<) row (nsoutdims self)"
      and "ncols = length (nsoutdims self)"
  shows "\<exists>counts. count_samples self (ncols, rows) = Inr counts
           \<and> shape counts = nsoutdims self
           \<and> length (flat counts) = prod_list (nsoutdims self)
           \<and> (\<forall>t. list_all2 (<) t (nsoutdims self) \<longrightarrow>
                  flat counts ! ravel_multi_index t (nsoutdims self)
                    = int (length (filter (\<lambda>row. row = t) rows)))
           \<and> sum_list (flat counts) = int (length rows)"
proof -
  let ?ds = "nsoutdims self"
  let ?counts = "map (\<lambda>out_num. int (length (filter (\<lambda>row. row = unravel_index out_num ?ds) rows)))
                   [0..<prod_list ?ds]"
  have total: "sum_list ?counts = int (length rows)"
    using assms(1) by (rule counts_total)
  have res: "count_samples self (ncols, rows) = Inr \<lparr>shape = ?ds, flat = ?counts\<rparr>"
    using assms(2) total by (simp add: count_samples_def Let_def)
  have entry: "?counts ! ravel_multi_index t ?ds = int (length (filter (\<lambda>row. row = t) rows))"
    if "list_all2 (<) t ?ds" for t
    using ravel_lt [OF that] unravel_ravel [OF that] by simp
  show ?thesis using res total entry by simp
qed

lemma z_povm2_nsoutdims: "nsoutdims z_povm2 = [2, 2]"
  by (simp add: nsoutdims_def example_pdims)

theorem count_samples_histogram_witness:
  "list_all (\<lambda>row. list_all2 (<) row (nsoutdims z_povm2)) [[0, 1], [1, 1], [0, 1]]
   \<and> length (nsoutdims z_povm2) = 2
   \<and> count_samples z_povm2 (2, [[0, 1], [1, 1], [0, 1]]) = Inr \<lparr>shape = [2, 2], flat = [0, 2, 0, 1]\<rparr>
   \<and> ravel_multi_index [0, 1] (nsoutdims z_povm2) = 1
   \<and> sum_list [0, 2, 0, 1 :: int] = int (length [[0, 1], [1, 1], [0, 1 :: nat]])"
proof -
  let ?rows = "[[0, 1], [1, 1], [0, 1 :: nat]]"
  have h1: "\<forall>row\<in>set ?rows. list_all2 (<) row (nsoutdims z_povm2)"
    by (simp add: z_povm2_nsoutdims)
  have h2: "2 = length (nsoutdims z_povm2)"
    by (simp add: z_povm2_nsoutdims)
  have ev: "count_samples z_povm2 (2, ?rows) = Inr \<lparr>shape = [2, 2], flat = [0, 2, 0, 1]\<rparr>"
    by (simp add: z_povm2_nsoutdims count_samples_def upt_conv_Cons)
  from count_samples_histogram [OF h1 h2] obtain counts where
    c: "count_samples z_povm2 (2, ?rows) = Inr counts" "sum_list (flat counts) = int (length ?rows)"
    by blast
  from c(1) ev have "counts = \<lparr>shape = [2, 2], flat = [0, 2, 0, 1]\<rparr>" by simp
  with c(2) have "sum_list [0, 2, 0, 1 :: int] = int (length ?rows)" by simp
  with ev show ?thesis by (simp add: z_povm2_nsoutdims)
qed

section \<open>The shape of the probability chains\<close>

text \<open>
  What the measurement layer needs of the module \<^verbatim>\<open>mpsmpo\<close>: every reduced state
  that it yields for the width \<open>w\<close> has \<open>w\<close> sites.
\<close>

definition windows_have_width :: "mpsmpo \<Rightarrow> bool" where
  "windows_have_width M \<longleftrightarrow>
     (\<forall>A w. list_all (\<lambda>B. len B = w) (reductions_mpo M A w)
          \<and> list_all (\<lambda>B. len (pmps_to_mpo M B) = w) (reductions_mps_as_pmps M A w)
          \<and> list_all (\<lambda>B. len (pmps_to_mpo M B) = w) (reductions_pmps M A w))"

lemma zip_map_same: "zip (map f xs) (map g xs) = map (\<lambda>x. (f x, g x)) xs"
  by (induction xs) simp_all

lemma probability_map_pdims:
  "pdims (probability_map self) = map (\<lambda>pd. [pd ! 0, (pd ! 0 * (pd ! 2 * pd ! 1)) div (pd ! 0)]) (pdims self)"
  by (simp add: probability_map_def reshape_def transpose_mpa_def Let_def zip_map_same
      resolve_shape_def)

lemma ravel_pdims: "pdims (ravel X) = map (\<lambda>pd. [prod_list pd]) (pdims X)"
proof -
  have "zip (pdims X) (map (\<lambda>_. [- 1 :: int]) (pdims X)) = map (\<lambda>pd. (pd, [- 1])) (pdims X)"
    using zip_map_same [of "\<lambda>x. x" "pdims X" "\<lambda>_. [- 1 :: int]"] by simp
  then show ?thesis
    by (simp add: ravel_def reshape_def Let_def resolve_shape_def)
qed

lemma rest_axes_2_1: "rest_axes (Suc (Suc 0)) [Suc 0] = [0]"
  by (simp add: rest_axes_def upt_conv_Cons)

lemma rest_axes_1_0: "rest_axes (Suc 0) [0] = []"
  by (simp add: rest_axes_def)

lemma dot_matvec_pdims:
  assumes "len X = len self"
  shows "pdims (dot (probability_map self) (ravel X) ([- 1], [0])) = map (\<lambda>pd. [pd ! 0]) (pdims self)"
proof -
  have n: "length (pdims X) = length (pdims self)" using assms by (simp add: len_def)
  have "map (\<lambda>s. map ((!) (pdims (probability_map self) ! s))
                 (rest_axes (length (pdims (probability_map self) ! s))
                    [norm_axis (length (pdims (probability_map self) ! s)) (- 1)]) @
               map ((!) (pdims (ravel X) ! s))
                 (rest_axes (length (pdims (ravel X) ! s)) [norm_axis (length (pdims (ravel X) ! s)) 0]))
          [0..<length (pdims self)]
        = map (\<lambda>s. [pdims self ! s ! 0]) [0..<length (pdims self)]"
    by (rule map_cong [OF refl])
       (simp add: probability_map_pdims ravel_pdims n norm_axis_def rest_axes_2_1 rest_axes_1_0)
  also have "\<dots> = map (\<lambda>pd. [pd ! 0]) (pdims self)"
    by (rule nth_equalityI) simp_all
  finally show ?thesis
    by (simp add: dot_def Let_def probability_map_pdims)
qed

lemma expectations_pdims:
  assumes "windows_have_width M" "expectations M self state mode = Inr ps" "p \<in> set ps"
  shows "pdims p = map (\<lambda>pd. [pd ! 0]) (pdims self)"
proof -
  from assms(1) have w:
    "\<And>B. B \<in> set (reductions_mpo M state (len self)) \<Longrightarrow> len B = len self"
    "\<And>B. B \<in> set (reductions_mps_as_pmps M state (len self)) \<Longrightarrow> len (pmps_to_mpo M B) = len self"
    "\<And>B. B \<in> set (reductions_pmps M state (len self)) \<Longrightarrow> len (pmps_to_mpo M B) = len self"
    by (auto simp add: windows_have_width_def list_all_iff)
  from assms(2,3) show ?thesis
    by (auto simp add: expectations_def Let_def dot_matvec_pdims w split: if_splits)
qed

lemma resolve_shape_plain: "resolve_shape sz (map int p) = p"
  by (simp add: resolve_shape_def comp_def)

lemma prune_singletons_pdims:
  assumes "pdims P = map (\<lambda>d. [d]) ds" "list_all (\<lambda>d. 0 < d) ds"
  shows "pdims (prune P True) = map (\<lambda>d. [d]) (filter (\<lambda>d. 1 < d) ds)"
proof -
  have a: "filter (\<lambda>pd. pd \<noteq> []) (map (\<lambda>d. if d = 1 then [] else [d]) ds)
           = map (\<lambda>d. [d]) (filter (\<lambda>d. 1 < d) ds)"
    using assms(2) by (induction ds) auto
  have b: "filter (\<lambda>pd. pd \<noteq> []) (map (\<lambda>d. [d]) ds) = map (\<lambda>d. [d]) (filter (\<lambda>d. 1 < d) ds)"
    if "\<not> list_ex (\<lambda>d. d = 1) ds"
    using assms(2) that by (induction ds) auto
  have r: "pdims (reshape (map (\<lambda>p. if prod_list p = 1 then [] else map int p) (pdims P)) P)
           = map (\<lambda>d. if d = 1 then [] else [d]) ds"
    by (simp add: reshape_def Let_def assms(1) zip_map_same comp_def resolve_shape_def)
  have ex: "list_ex (\<lambda>p. prod_list p = 1) (pdims P) \<longleftrightarrow> list_ex (\<lambda>d. d = 1) ds"
    by (simp add: assms(1) list_ex_iff)
  show ?thesis
  proof (cases "list_ex (\<lambda>d. d = 1) ds")
    case True
    then show ?thesis using r a ex by (simp add: prune_def Let_def)
  next
    case False
    then show ?thesis using b ex by (simp add: prune_def Let_def assms(1))
  qed
qed

lemma set_slice_length: "set_slice out a b vals = Inr r \<Longrightarrow> length r = length out"
  by (auto simp add: set_slice_def Let_def min_def split: if_splits)

lemma cond_step_length:
  "cond_step rng marginal_p n_group eps n_out (out, out_p, g) = Inr (out', out_p', g')
     \<Longrightarrow> length out' = length out"
  by (auto simp add: cond_step_def Let_def set_slice_length split: sum.splits if_splits prod.splits)

lemma cond_loop_length:
  "cond_loop rng marginal_p n_group eps ns (out, out_p, g) = Inr (out', out_p', g')
     \<Longrightarrow> length out' = length out"
proof (induction ns arbitrary: out out_p g)
  case Nil
  then show ?case by simp
next
  case (Cons n ns)
  from Cons.prems obtain out1 p1 g1 where
    s: "cond_step rng marginal_p n_group eps n (out, out_p, g) = Inr (out1, p1, g1)"
    and l: "cond_loop rng marginal_p n_group eps ns (out1, p1, g1) = Inr (out', out_p', g')"
    by (auto split: sum.splits)
  from Cons.IH [OF l] cond_step_length [OF s] show ?case by simp
qed

lemma sample_cond_single_length:
  "sample_cond_single rng g marginal_p n_group out eps = Inr (out', g') \<Longrightarrow> length out' = length out"
  by (auto simp add: sample_cond_single_def Let_def split: sum.splits if_splits prod.splits
      dest: cond_loop_length)

lemma sample_rows_length:
  "sample_rows rng g marginal_p n_group out eps = Inr (out', g')
     \<Longrightarrow> list_all2 (\<lambda>r r'. length r' = length r) out out'"
proof (induction out arbitrary: g out')
  case Nil
  then show ?case by simp
next
  case (Cons row rows)
  from Cons.prems obtain row' g1 rows' where
    a: "sample_cond_single rng g marginal_p n_group row eps = Inr (row', g1)"
    and b: "sample_rows rng g1 marginal_p n_group rows eps = Inr (rows', g')"
    and c: "out' = row' # rows'"
    by (auto split: sum.splits prod.splits)
  from Cons.IH [OF b] sample_cond_single_length [OF a] c show ?case by simp
qed

lemma sample_cond_length:
  "sample_cond rng g probab n_group out eps = Inr (out', g')
     \<Longrightarrow> list_all2 (\<lambda>r r'. length r' = length r) out out'"
  by (auto simp add: sample_cond_def Let_def split: if_splits dest: sample_rows_length)

lemma choices_length: "choices rng g n a p = (cs, g') \<Longrightarrow> length cs = n"
  by (induction n arbitrary: g cs) (auto split: prod.splits)

lemma unravel_index_length: "length (unravel_index k ds) = length ds"
  by (induction ds arbitrary: k) simp_all

lemma sample_direct_length:
  assumes "sample_direct rng g probab n_samples out eps = Inr (out', g')" "length out = n_samples"
  shows "list_all2 (\<lambda>r r'. length r' = length r) out out'"
proof -
  let ?arr = "to_array (prune probab True)"
  let ?w = "map (\<lambda>x. if x < 0 then 0 else x) (map Re (flat ?arr))"
  obtain cs g1 where ch: "choices rng g n_samples (length (flat ?arr)) ?w = (cs, g1)"
    by (cases "choices rng g n_samples (length (flat ?arr)) ?w") auto
  have lcs: "length cs = length out" using choices_length [OF ch] assms(2) by simp
  have same: "list_all2 (\<lambda>r r'. length r' = length r) out out" 
    by (simp add: list_all2_same)
  have upd: "list_all2 (\<lambda>r r'. length r' = length r) out
               (map (\<lambda>(row, c). set_cols row (map word_of_nat (unravel_index c (shape ?arr)))) (zip out cs))"
    if "\<not> list_ex (\<lambda>row. length row < length (shape ?arr)) out"
  proof -
    have "length (shape ?arr) \<le> length (out ! i)" if "i < length out" for i
      using \<open>\<not> list_ex (\<lambda>row. length row < length (shape ?arr)) out\<close> that
      by (auto simp add: list_ex_iff not_less)
    then show ?thesis using lcs
      by (auto simp add: list_all2_conv_all_nth set_cols_def unravel_index_length)
  qed
  from assms(1) ch show ?thesis
    using same upd assms(2)
    by (auto simp add: sample_direct_def Let_def split: if_splits)
qed

lemma dense_mpo_windows: "windows_have_width dense_mpo"
  by (auto simp add: windows_have_width_def dense_mpo_def list_all_iff reduce_mpo_def len_def)

lemma z_povm_outdims: "outdims z_povm = [2]" "nsoutdims z_povm = [2]"
  by (simp_all add: outdims_def nsoutdims_def example_pdims)

section \<open>The samples are in range\<close>

text \<open>
  C3. Whenever \<^verbatim>\<open>sample\<close> returns, all outcome dimensions of the measurement are
  at most 255 (otherwise the assertion on them fails), the result has
  \<open>n_samples\<close> rows and one column per non-singleton outcome site, every entry
  \<open>[i, j]\<close> is below the \<open>j\<close>-th non-singleton outcome dimension, and the
  sentinel \<open>0xFF\<close> of an unfilled entry does not occur in it. The measurement has
  no outcome dimension 0, and the reduced states have the width of the measurement.
\<close>

theorem sample_entries_in_range:
  assumes "windows_have_width M"
      and "list_all (\<lambda>d. 0 < d) (outdims self)"
      and "sample M self rng g state n_samples method n_group mode eps = Inr (out, g')"
  shows "list_all (\<lambda>dim. dim \<le> 255) (outdims self)
       \<and> length out = n_samples
       \<and> (\<forall>row\<in>set out. length row = length (nsoutdims self)
             \<and> (\<forall>j<length row. unat (row ! j) < nsoutdims self ! j \<and> row ! j \<noteq> 0xFF))"
proof -
  from assms(3) obtain p0 ps where ex: "expectations M self state mode = Inr (p0 # ps)"
    by (auto simp add: sample_def split: if_splits sum.splits list.splits)
  define probab where "probab = prune p0 True"
  define out0 where "out0 = replicate n_samples (replicate (len probab) (0xff :: 8 word))"
  define res where "res = (if method = ''cond'' then sample_cond rng g probab n_group out0 eps
                        else if method = ''direct'' then sample_direct rng g probab n_samples out0 eps
                        else Inl (ValueError ''Unknown method''))"
  from assms(3) ex have dims: "list_all (\<lambda>dim. dim \<le> 255) (outdims self)"
    by (auto simp add: sample_def Let_def split: if_splits)
  from assms(3) ex dims have rest:
    "(case res of Inl e \<Rightarrow> Inl e
      | Inr (out, g') \<Rightarrow>
          (case rows_below out (len probab) (nsoutdims self) of
             Inl e \<Rightarrow> Inl e
           | Inr ok \<Rightarrow>
               if \<not> ok then Inl (AssertionError ''(out < np.array(self.nsoutdims)[None, :]).all()'')
               else Inr (out, g'))) = Inr (out, g')"
    unfolding res_def out0_def probab_def
    by (simp add: sample_def Let_def split: if_splits)
  then have res: "res = Inr (out, g')"
    and below: "rows_below out (len probab) (nsoutdims self) = Inr True"
    by (auto split: sum.splits prod.splits if_splits)
  have "pdims p0 = map (\<lambda>pd. [pd ! 0]) (pdims self)"
    by (rule expectations_pdims [OF assms(1) ex]) simp
  then have "pdims p0 = map (\<lambda>d. [d]) (outdims self)"
    by (simp only: outdims_def map_map comp_def)
  from prune_singletons_pdims [OF this assms(2)]
  have "pdims probab = map (\<lambda>d. [d]) (nsoutdims self)"
    by (simp only: probab_def nsoutdims_def outdims_def)
  then have ncols: "len probab = length (nsoutdims self)"
    by (simp add: len_def)
  have keep: "list_all2 (\<lambda>r r'. length r' = length r) out0 out"
  proof (cases "method = ''cond''")
    case True
    with res show ?thesis by (auto simp add: res_def dest: sample_cond_length)
  next
    case False
    with res have "sample_direct rng g probab n_samples out0 eps = Inr (out, g')"
      by (auto simp add: res_def split: if_splits)
    then show ?thesis by (rule sample_direct_length) (simp add: out0_def)
  qed
  then have n: "length out = n_samples"
    by (auto simp add: out0_def dest: list_all2_lengthD)
  have rowlen: "length row = length (nsoutdims self)" if "row \<in> set out" for row
  proof -
    from that obtain i where "i < length out" "out ! i = row" by (auto simp add: in_set_conv_nth)
    with keep n have "length row = length (out0 ! i)"
      by (auto simp add: list_all2_conv_all_nth)
    with \<open>i < length out\<close> n ncols show ?thesis by (simp add: out0_def)
  qed
  have small: "d \<le> 255" if "d \<in> set (nsoutdims self)" for d
    using that dims by (auto simp add: nsoutdims_def outdims_def list_all_iff)
  have entries: "unat (row ! j) < nsoutdims self ! j \<and> row ! j \<noteq> 0xFF"
    if "row \<in> set out" "j < length row" for row j
  proof -
    from below ncols that(1) have "list_all (\<lambda>(w, d). unat w < d) (zip row (nsoutdims self))"
      by (auto simp add: rows_below_def list_all_iff split: if_splits)
    with that(2) rowlen [OF that(1)] have lt: "unat (row ! j) < nsoutdims self ! j"
      by (auto simp add: list_all_length)
    from that(2) rowlen [OF that(1)] have "nsoutdims self ! j \<le> 255"
      by (intro small) simp
    with lt have "unat (row ! j) \<noteq> 255" by simp
    then have "row ! j \<noteq> 0xFF" by auto
    with lt show ?thesis by simp
  qed
  from dims n rowlen entries show ?thesis by blast
qed

theorem sample_entries_in_range_witness:
  "windows_have_width dense_mpo
   \<and> list_all (\<lambda>d. 0 < d) (outdims z_povm)
   \<and> sample dense_mpo z_povm first_positive () mixed_state 1 ''cond'' 1 ''mpdo'' (1 / 10) = Inr ([[0]], ())
   \<and> list_all (\<lambda>dim. dim \<le> 255) (outdims z_povm)
   \<and> length [[0 :: 8 word]] = 1
   \<and> length [0 :: 8 word] = length (nsoutdims z_povm)
   \<and> unat ([0 :: 8 word] ! 0) < nsoutdims z_povm ! 0
   \<and> [0 :: 8 word] ! 0 \<noteq> 0xFF"
proof -
  have h2: "list_all (\<lambda>d. 0 < d) (outdims z_povm)"
    by (simp add: z_povm_outdims)
  from sample_entries_in_range [OF dense_mpo_windows h2 z_sample_cond]
  have r: "list_all (\<lambda>dim. dim \<le> 255) (outdims z_povm)"
    by blast
  have e: "length [0 :: 8 word] = length (nsoutdims z_povm)"
    "unat ([0 :: 8 word] ! 0) < nsoutdims z_povm ! 0" "[0 :: 8 word] ! 0 \<noteq> 0xFF"
    by (simp_all add: z_povm_outdims)
  from dense_mpo_windows h2 z_sample_cond r e show ?thesis
    by (intro conjI) simp_all
qed

section \<open>Small negative probabilities are clamped, larger deviations are fatal\<close>

lemma choices_cong:
  "(\<And>g a. rng' g a w = rng g a w) \<Longrightarrow> choices rng' g n a w = choices rng g n a w"
  by (induction n arbitrary: g) simp_all

lemma not_list_all_conj:
  "\<not> (list_all (\<lambda>z. P z \<and> Q z) zs) \<longleftrightarrow> \<not> list_all P zs \<or> \<not> list_all Q zs"
  by (auto simp add: list_all_iff)

text \<open>
  A probability chain on one site with a small negative entry, and what
  \<^verbatim>\<open>_sample_cond_single\<close> selects of it in its first pass.
\<close>

definition skewed :: mpa where
  "skewed = from_kron [\<lparr>shape = [2], flat = [- (1 / 20), 21 / 20]\<rparr>]"

lemma skewed_pdims: "pdims skewed = [[2]]" "len skewed = 1"
  by (simp_all add: skewed_def from_kron_def len_def)

lemma skewed_el: "el skewed [[0]] = - (1 / 20)" "el skewed [[Suc 0]] = 21 / 20"
  by (simp_all add: skewed_def from_kron_def)

lemma skewed_array:
  "to_array (prune skewed True) = \<lparr>shape = [2], flat = [- (1 / 20), 21 / 20]\<rparr>"
  "to_array (prune skewed False) = \<lparr>shape = [2], flat = [- (1 / 20), 21 / 20]\<rparr>"
  by (simp_all add: to_array_def prune_def skewed_pdims skewed_el eval_defs plegs_def)

lemma skewed_direct:
  "sample_direct first_positive () skewed 1 [[0xff]] (1 / 10) = Inr ([[1]], ())"
  by (simp add: sample_direct_def skewed_array first_positive_def set_cols_def)

lemma skewed_direct_fatal:
  "sample_direct first_positive () skewed 1 [[0xff]] (1 / 100) = Inl (AssertionError ''(probab >= -eps).all()'')"
  by (simp add: sample_direct_def skewed_array)

lemma skewed_marginals: "marginals skewed = [sum_axes [[0]] skewed, skewed]"
  by (simp add: marginals_def skewed_pdims Let_def)

definition skewed_item :: mpa where
  "skewed_item =
     \<lparr>pdims = [[2]],
      el = \<lambda>idx. el skewed (map (\<lambda>(it, i). case it of None \<Rightarrow> i | Some v \<Rightarrow> v # i) (zip [None] idx))\<rparr>"

lemma skewed_item_array:
  "to_array (prune skewed_item False) = \<lparr>shape = [2], flat = [- (1 / 20), 21 / 20]\<rparr>"
  by (simp add: to_array_def prune_def skewed_item_def skewed_el eval_defs plegs_def)

lemma skewed_getitem:
  "getitem (map (\<lambda>w. Some (unat w)) (take 0 [0xff :: 8 word])
              @ replicate (len (marginals skewed ! min (len (last (marginals skewed))) (0 + 1)) - 0) None)
     (marginals skewed ! min (len (last (marginals skewed))) (0 + 1)) = Inr skewed_item"
  by (simp add: skewed_marginals skewed_pdims getitem_def skewed_item_def)

lemma skewed_cond_step:
  "cond_step first_positive (marginals skewed) 1 (1 / 10) 0 ([0xff], 1, ()) = Inr ([1], 21 / 20, ())"
  using skewed_getitem
  by (simp add: cond_step_def skewed_item_array first_positive_def set_slice_def)

text \<open>
  C4. In \<^verbatim>\<open>_sample_direct\<close> and in every pass of \<^verbatim>\<open>_sample_cond_single\<close> (where
  the entries are the conditional probabilities, the selected marginal divided by
  the nonzero probability of the partial outcome) an assertion fails exactly when
  some entry has an imaginary part beyond \<open>eps\<close>, or a real part below \<open>-eps\<close>, or
  the sum of the clamped real parts differs from 1 by more than \<open>eps\<close>. Otherwise
  no assertion fails, and the random source is consulted with the clamped weights
  only, in which every negative entry is exactly zero: two random sources that
  agree on the clamped weights give the same result.
\<close>

theorem sampling_clamps_small_negatives:
  assumes zs: "zs = flat (to_array (prune probab True))"
      and w: "w = map (\<lambda>x. if x < 0 then 0 else x) (map Re zs)"
      and q: "getitem (map (\<lambda>w. Some (unat w)) (take n_out row)
                        @ replicate (len (marginal_p ! min (len (last marginal_p)) (n_out + n_group)) - n_out) None)
                (marginal_p ! min (len (last marginal_p)) (n_out + n_group)) = Inr q"
      and out_p: "out_p \<noteq> 0"
      and cs: "cs = map (\<lambda>z. z / complex_of_real out_p) (flat (to_array (prune q False)))"
      and v: "v = map (\<lambda>x. if x < 0 then 0 else x) (map Re cs)"
  shows "((\<exists>e. sample_direct rng g probab n_samples out eps = Inl (AssertionError e))
            \<longleftrightarrow> \<not> (list_all (\<lambda>z. \<bar>Im z\<bar> \<le> eps \<and> - eps \<le> Re z) zs \<and> \<bar>sum_list w - 1\<bar> \<le> eps))
       \<and> ((\<forall>g a. rng' g a w = rng g a w) \<longrightarrow>
            sample_direct rng' g probab n_samples out eps = sample_direct rng g probab n_samples out eps)
       \<and> ((\<exists>e. cond_step rng marginal_p n_group eps n_out (row, out_p, g) = Inl (AssertionError e))
            \<longleftrightarrow> \<not> (list_all (\<lambda>z. \<bar>Im z\<bar> \<le> eps \<and> - eps \<le> Re z) cs \<and> \<bar>sum_list v - 1\<bar> \<le> eps))
       \<and> ((\<forall>g a. rng' g a v = rng g a v) \<longrightarrow>
            cond_step rng' marginal_p n_group eps n_out (row, out_p, g)
              = cond_step rng marginal_p n_group eps n_out (row, out_p, g))"
proof -
  have a: "(\<exists>e. sample_direct rng g probab n_samples out eps = Inl (AssertionError e))
            \<longleftrightarrow> \<not> (list_all (\<lambda>z. \<bar>Im z\<bar> \<le> eps \<and> - eps \<le> Re z) zs \<and> \<bar>sum_list w - 1\<bar> \<le> eps)"
    unfolding zs w
    by (auto simp add: sample_direct_def Let_def list_all_iff split: prod.splits)
  have b: "sample_direct rng' g probab n_samples out eps = sample_direct rng g probab n_samples out eps"
    if "\<forall>g a. rng' g a w = rng g a w"
  proof -
    from that have "choices rng' g n_samples a w = choices rng g n_samples a w" for a
      by (intro choices_cong) simp
    then show ?thesis unfolding zs w
      by (simp add: sample_direct_def Let_def)
  qed
  have c: "(\<exists>e. cond_step rng marginal_p n_group eps n_out (row, out_p, g) = Inl (AssertionError e))
            \<longleftrightarrow> \<not> (list_all (\<lambda>z. \<bar>Im z\<bar> \<le> eps \<and> - eps \<le> Re z) cs \<and> \<bar>sum_list v - 1\<bar> \<le> eps)"
    unfolding cs v using q out_p
    by (auto simp add: cond_step_def Let_def list_all_iff set_slice_def split: prod.splits sum.splits)
  have d: "cond_step rng' marginal_p n_group eps n_out (row, out_p, g)
              = cond_step rng marginal_p n_group eps n_out (row, out_p, g)"
    if "\<forall>g a. rng' g a v = rng g a v"
    using that q unfolding cs v
    by (simp add: cond_step_def Let_def)
  from a b c d show ?thesis by blast
qed

theorem sampling_clamps_small_negatives_witness:
  "flat (to_array (prune skewed True)) = [- (1 / 20), 21 / 20]
   \<and> sample_direct first_positive () skewed 1 [[0xff]] (1 / 10) = Inr ([[1]], ())
   \<and> sample_direct first_positive () skewed 1 [[0xff]] (1 / 100)
        = Inl (AssertionError ''(probab >= -eps).all()'')
   \<and> cond_step first_positive (marginals skewed) 1 (1 / 10) 0 ([0xff], 1, ()) = Inr ([1], 21 / 20, ())
   \<and> list_all (\<lambda>z. \<bar>Im z\<bar> \<le> 1 / 10 \<and> - (1 / 10) \<le> Re z) (flat (to_array (prune skewed True)))
   \<and> \<bar>sum_list (map (\<lambda>x. if x < 0 then 0 else x) (map Re (flat (to_array (prune skewed True))))) - 1\<bar> \<le> 1 / 10"
proof -
  have one: "(1 :: real) \<noteq> 0" by simp
  note t = sampling_clamps_small_negatives [OF refl refl skewed_getitem one refl refl,
      where rng = first_positive and g = "()" and n_samples = 1 and out = "[[0xff]]"
        and eps = "1 / 10" and rng' = first_positive]
  from t have "\<not> (\<exists>e. sample_direct first_positive () skewed 1 [[0xff]] (1 / 10) = Inl (AssertionError e))
      \<longleftrightarrow> list_all (\<lambda>z. \<bar>Im z\<bar> \<le> 1 / 10 \<and> - (1 / 10) \<le> Re z) (flat (to_array (prune skewed True)))
      \<and> \<bar>sum_list (map (\<lambda>x. if x < 0 then 0 else x) (map Re (flat (to_array (prune skewed True))))) - 1\<bar> \<le> 1 / 10"
    by blast
  moreover have "\<not> (\<exists>e. sample_direct first_positive () skewed 1 [[0xff]] (1 / 10) = Inl (AssertionError e))"
    unfolding skewed_direct by simp
  ultimately have ok: "list_all (\<lambda>z. \<bar>Im z\<bar> \<le> 1 / 10 \<and> - (1 / 10) \<le> Re z) (flat (to_array (prune skewed True)))
      \<and> \<bar>sum_list (map (\<lambda>x. if x < 0 then 0 else x) (map Re (flat (to_array (prune skewed True))))) - 1\<bar> \<le> 1 / 10"
    by blast
  have f: "flat (to_array (prune skewed True)) = [- (1 / 20), 21 / 20]"
    by (simp add: skewed_array)
  from f skewed_direct skewed_direct_fatal skewed_cond_step ok show ?thesis
    by (intro conjI) blast+
qed

section \<open>Conditional sampling: the marginals and the probability of the outcome\<close>

subsection \<open>Enumerating the entries of a dense array\<close>

lemma upt_block: "[m..<m + n] = map (\<lambda>r. m + r) [0..<n]"
  by (induction n) simp_all

lemma map_upt_mult:
  "map f [0..<d * n] = concat (map (\<lambda>i. map (\<lambda>r. f (i * n + r)) [0..<n]) [0..<d])"
proof (induction d)
  case 0
  then show ?case by simp
next
  case (Suc d)
  have "[0..<d * n + n] = [0..<d * n] @ [d * n..<d * n + n]"
    by (rule upt_add_eq_append) simp
  also have "[d * n..<d * n + n] = map (\<lambda>r. d * n + r) [0..<n]"
    by (rule upt_block)
  finally have "map f [0..<d * n + n] = map f [0..<d * n] @ map (\<lambda>r. f (d * n + r)) [0..<n]"
    by (simp add: comp_def)
  then have "map f [0..<d * n + n]
             = concat (map (\<lambda>i. map (\<lambda>r. f (i * n + r)) [0..<n]) [0..<Suc d])"
    using Suc.IH by simp
  then show ?case by (simp add: add.commute)
qed

lemma indices_unravel: "indices sh = map (\<lambda>k. unravel_index k sh) [0..<prod_list sh]"
proof (induction sh)
  case Nil
  then show ?case by (simp add: indices_def)
next
  case (Cons d ds)
  let ?n = "prod_list ds"
  have inner: "map (\<lambda>r. unravel_index (i * ?n + r) (d # ds)) [0..<?n]
               = map ((#) i) (map (\<lambda>k. unravel_index k ds) [0..<?n])" for i
    by simp
  have "map (\<lambda>k. unravel_index k (d # ds)) [0..<d * ?n]
        = concat (map (\<lambda>i. map (\<lambda>r. unravel_index (i * ?n + r) (d # ds)) [0..<?n]) [0..<d])"
    by (rule map_upt_mult)
  also have "\<dots> = concat (map (\<lambda>i. map ((#) i) (indices ds)) [0..<d])"
    unfolding inner Cons.IH [symmetric] ..
  also have "\<dots> = indices (d # ds)"
    by (simp add: indices_def)
  finally show ?case by simp
qed

lemma length_indices: "length (indices sh) = prod_list sh"
  by (simp add: indices_unravel)

lemma nth_indices: "c < prod_list sh \<Longrightarrow> indices sh ! c = unravel_index c sh"
  by (simp add: indices_unravel)

subsection \<open>Selecting the entries of a chain with one leg per site\<close>

lemma marginal_from_last:
  "length (marginal_from probab j) = Suc j \<and> marginal_from probab j ! j = probab
     \<and> last (marginal_from probab j) = probab"
proof (induction j)
  case 0
  then show ?case by simp
next
  case (Suc j)
  then have "marginal_from probab j \<noteq> []" by auto
  with Suc show ?case by (simp add: Let_def)
qed

lemma marginals_last:
  "marginals probab ! len probab = probab" "last (marginals probab) = probab"
  by (simp_all add: marginals_def marginal_from_last)

lemma unprune_legless:
  "length idx = length es \<Longrightarrow>
     unprune (replicate n [] @ map (\<lambda>d. [d]) es) idx = replicate n [] @ idx"
proof (induction n)
  case 0
  then show ?case
    by (induction es idx rule: list_induct2') simp_all
next
  case (Suc n)
  then show ?case by simp
qed

lemma split_sites_single:
  "length i = length es \<Longrightarrow> split_sites (map (\<lambda>_. Suc 0) es) i = map (\<lambda>x. [x]) i"
  by (induction i es rule: list_induct2) simp_all

lemma indices_length: "i \<in> set (indices sh) \<Longrightarrow> length i = length sh"
  by (auto simp add: indices_def dest: in_set_product_lists_length)

lemma getitem_prefix:
  assumes "pdims A = map (\<lambda>d. [d]) ds" "length pre \<le> length ds"
      and "getitem (map Some pre @ replicate (length ds - length pre) None) A = Inr q"
  shows "pdims q = replicate (length pre) [] @ map (\<lambda>d. [d]) (drop (length pre) ds)"
    and "length idx = length ds - length pre \<Longrightarrow>
           el q (replicate (length pre) [] @ idx) = el A (map (\<lambda>v. [v]) pre @ idx)"
    and "list_all2 (<) pre (take (length pre) ds)"
proof -
  let ?n = "length pre"
  let ?items = "map Some pre @ replicate (length ds - ?n) None"
  have ds: "ds = take ?n ds @ drop ?n ds" by simp
  have z: "zip (pdims A) ?items
           = zip (map (\<lambda>d. [d]) (take ?n ds)) (map Some pre)
             @ zip (map (\<lambda>d. [d]) (drop ?n ds)) (replicate (length ds - ?n) None)"
    using assms(2) by (subst assms(1), subst ds) (simp add: zip_append del: append_take_drop_id)
  have ok: "\<not> list_ex (\<lambda>(pd, it). case it of None \<Rightarrow> False | Some i \<Rightarrow> pd = [] \<or> \<not> i < hd pd)
              (zip (pdims A) ?items)"
    and q: "q = \<lparr>pdims = map (\<lambda>(pd, it). case it of None \<Rightarrow> pd | Some i \<Rightarrow> tl pd) (zip (pdims A) ?items),
               el = (\<lambda>idx. el A (map (\<lambda>(it, i). case it of None \<Rightarrow> i | Some v \<Rightarrow> v # i)
                                     (zip ?items idx)))\<rparr>"
    using assms(3) by (auto simp add: getitem_def split: if_splits)
  have m1: "map (\<lambda>(pd, it). case it of None \<Rightarrow> pd | Some i \<Rightarrow> tl pd)
              (zip (map (\<lambda>d. [d]) (take ?n ds)) (map Some pre)) = replicate ?n []"
    using assms(2) by (simp add: list_eq_iff_nth_eq)
  have m2: "map (\<lambda>(pd, it). case it of None \<Rightarrow> pd | Some i \<Rightarrow> tl pd)
              (zip (map (\<lambda>d. [d]) (drop ?n ds)) (replicate (length ds - ?n) None))
            = map (\<lambda>d. [d]) (drop ?n ds)"
    by (simp add: list_eq_iff_nth_eq)
  show "pdims q = replicate ?n [] @ map (\<lambda>d. [d]) (drop ?n ds)"
    by (simp add: q z m1 m2)
  show "el q (replicate ?n [] @ idx) = el A (map (\<lambda>v. [v]) pre @ idx)"
    if "length idx = length ds - ?n"
  proof -
    have "zip ?items (replicate ?n [] @ idx)
          = zip (map Some pre) (replicate ?n []) @ zip (replicate (length ds - ?n) None) idx"
      by (simp add: zip_append)
    moreover have "map (\<lambda>(it, i). case it of None \<Rightarrow> i | Some v \<Rightarrow> v # i)
                     (zip (map Some pre) (replicate ?n [])) = map (\<lambda>v. [v]) pre"
      by (simp add: list_eq_iff_nth_eq)
    moreover have "map (\<lambda>(it, i). case it of None \<Rightarrow> i | Some v \<Rightarrow> v # i)
                     (zip (replicate (length ds - ?n) None) idx) = idx"
      using that by (simp add: list_eq_iff_nth_eq)
    ultimately show ?thesis by (simp add: q)
  qed
  from ok z have nex: "\<not> list_ex (\<lambda>(pd, it). case it of None \<Rightarrow> False | Some i \<Rightarrow> pd = [] \<or> \<not> i < hd pd)
              (zip (map (\<lambda>d. [d]) (take ?n ds)) (map Some pre))"
    by simp
  have "pre ! i < ds ! i" if "i < ?n" for i
  proof -
    have "([ds ! i], Some (pre ! i)) \<in> set (zip (map (\<lambda>d. [d]) (take ?n ds)) (map Some pre))"
      using that assms(2) by (auto simp add: set_zip intro!: exI [of _ i])
    with nex show ?thesis by (auto simp add: list_ex_iff)
  qed
  then show "list_all2 (<) pre (take ?n ds)"
    using assms(2) by (simp add: list_all2_conv_all_nth)
qed

lemma slice_array:
  assumes "pdims A = map (\<lambda>d. [d]) ds" "length pre \<le> length ds"
      and "getitem (map Some pre @ replicate (length ds - length pre) None) A = Inr q"
  shows "shape (to_array (prune q False)) = drop (length pre) ds"
    and "flat (to_array (prune q False))
           = map (\<lambda>i. el A (map (\<lambda>x. [x]) (pre @ i))) (indices (drop (length pre) ds))"
proof -
  let ?n = "length pre"
  let ?es = "drop ?n ds"
  note g = getitem_prefix [OF assms]
  have pd: "pdims (prune q False) = map (\<lambda>d. [d]) ?es"
    by (simp add: prune_def g(1) comp_def)
  have e: "el (prune q False) idx = el A (map (\<lambda>v. [v]) pre @ idx)" if "length idx = length ?es" for idx
    using that by (simp add: prune_def g(1) unprune_legless g(2))
  have c: "concat (map (\<lambda>d. [d]) ?es) = ?es"
    by (induction ?es) simp_all
  show "shape (to_array (prune q False)) = ?es"
    by (simp add: to_array_def pd c)
  have "el (prune q False) (split_sites (plegs (prune q False)) i) = el A (map (\<lambda>x. [x]) (pre @ i))"
    if "i \<in> set (indices ?es)" for i
  proof -
    from that have l: "length i = length ?es" by (rule indices_length)
    then have "split_sites (plegs (prune q False)) i = map (\<lambda>x. [x]) i"
      using split_sites_single [of i ?es] by (simp add: plegs_def pd comp_def)
    with l show ?thesis by (simp add: e)
  qed
  then show "flat (to_array (prune q False))
           = map (\<lambda>i. el A (map (\<lambda>x. [x]) (pre @ i))) (indices ?es)"
    by (simp add: to_array_def pd c)
qed

lemma split_sites_legless: "split_sites (replicate n 0) [] = replicate n []"
  by (induction n) simp_all

lemma full_item_array:
  assumes "pdims A = map (\<lambda>d. [d]) ds" "length pre = length ds"
      and "getitem (map Some pre) A = Inr q"
  shows "hd (flat (to_array q)) = el A (map (\<lambda>x. [x]) pre)"
proof -
  from assms(3,2) have g: "getitem (map Some pre @ replicate (length ds - length pre) None) A = Inr q"
    by simp
  note p = getitem_prefix [OF assms(1) _ g]
  have pd: "pdims q = replicate (length pre) []"
    using p(1) assms(2) by simp
  have "el q (replicate (length pre) [] @ []) = el A (map (\<lambda>v. [v]) pre @ [])"
    using assms(2) by (intro p(2)) simp_all
  then show ?thesis
    by (simp add: to_array_def pd plegs_def indices_def split_sites_legless)
qed

subsection \<open>The last pass of the loop fixes the probability of the outcome\<close>

text \<open>
  What the sampler needs of the random source: an index that it chooses within the
  weights has a positive weight (numpy's \<^verbatim>\<open>choice\<close> never returns an index of
  weight zero).
\<close>

definition chooses_positive :: "'g chooser \<Rightarrow> bool" where
  "chooses_positive rng \<longleftrightarrow>
     (\<forall>g a p. fst (rng g a p) < length p \<longrightarrow> 0 < p ! fst (rng g a p))"

lemma unat_word_of_nat_list:
  assumes "list_all2 (<) u sh" "list_all (\<lambda>d. d \<le> 255) sh"
  shows "map unat (map (word_of_nat :: nat \<Rightarrow> 8 word) u) = u"
  using assms
proof (induction u sh rule: list_all2_induct)
  case Nil
  then show ?case by simp
next
  case (Cons x u d sh)
  then have "x < 256" by simp
  then have "unat (word_of_nat x :: 8 word) = x"
    by (simp add: unat_of_nat take_bit_nat_eq_self)
  with Cons show ?case by simp
qed

lemma last_step:
  assumes pd: "pdims probab = map (\<lambda>d. [d]) ds"
      and small: "list_all (\<lambda>d. d \<le> 255) ds"
      and len: "length out = length ds"
      and n: "n_out < length ds" "length ds \<le> n_out + n_group"
      and rng: "chooses_positive rng"
      and step: "cond_step rng (marginals probab) n_group eps n_out (out, out_p, g) = Inr (out', out_p', g')"
  shows "out_p' = Re (el probab (map (\<lambda>w. [unat w]) out'))"
    and "list_all2 (<) (map unat out') ds"
proof -
  let ?N = "length ds"
  let ?pre = "map unat (take n_out out)"
  let ?sh = "drop n_out ds"
  have N: "len probab = ?N" by (simp add: len_def pd)
  have lp: "length ?pre = n_out" using len n by simp
  have mn: "min (length out) n_out = n_out" using len n by simp
  have sel: "marginals probab ! min (len (last (marginals probab))) (n_out + n_group) = probab"
    using n marginals_last(1) [of probab] by (simp add: marginals_last(2) N min_absorb1)
  define items where
    "items = map (\<lambda>w. Some (unat w)) (take n_out out) @ replicate (len probab - n_out) None"
  have items: "items = map Some ?pre @ replicate (?N - length ?pre) None"
    using len n by (simp add: items_def N comp_def min_absorb2)
  from step have st: "(case getitem items probab of Inl e \<Rightarrow> Inl e | Inr p \<Rightarrow>
           let arr = to_array (prune p False);
               p = map (\<lambda>z. z / complex_of_real out_p) (flat arr)
           in if out_p = 0 \<or> \<not> list_all (\<lambda>z. \<bar>Im z\<bar> \<le> eps) p
              then Inl (AssertionError ''(abs(p.imag) <= eps).all()'')
              else
                let p = map Re p
                in if \<not> list_all (\<lambda>x. x \<ge> - eps) p
                   then Inl (AssertionError ''(p >= -eps).all()'')
                   else
                     let p = map (\<lambda>x. if x < 0 then 0 else x) p
                     in if \<not> \<bar>sum_list p - 1\<bar> \<le> eps
                        then Inl (AssertionError ''abs(p.sum() - 1.0) <= eps'')
                        else
                          (case rng g (length p) p of (choice, g') \<Rightarrow>
                             if \<not> choice < length p then Inl (ValueError ''index out of bounds'')
                             else
                               (case set_slice out n_out (n_out + n_group)
                                       (map word_of_nat (unravel_index choice (shape arr))) of
                                  Inl e \<Rightarrow> Inl e
                                | Inr out \<Rightarrow> Inr (out, out_p * p ! choice, g'))))
          = Inr (out', out_p', g')"
    unfolding cond_step_def Let_def sel items_def by simp
  then obtain q where q0: "getitem items probab = Inr q"
    by (cases "getitem items probab") simp_all
  then have q: "getitem (map Some ?pre @ replicate (?N - length ?pre) None) probab = Inr q"
    by (simp only: items)
  have lp': "length ?pre \<le> ?N" using lp n by simp
  note arr = slice_array [OF pd lp' q]
  let ?F = "\<lambda>i. el probab (map (\<lambda>x. [x]) (?pre @ i))"
  let ?w = "map (\<lambda>x. if x < 0 then 0 else x)
              (map Re (map (\<lambda>z. z / complex_of_real out_p) (flat (to_array (prune q False)))))"
  obtain c g1 where ch: "rng g (length ?w) ?w = (c, g1)"
    by (cases "rng g (length ?w) ?w") auto
  from st q0 ch have nz: "out_p \<noteq> 0" and c: "c < length ?w"
    and sl: "set_slice out n_out (n_out + n_group)
               (map word_of_nat (unravel_index c (shape (to_array (prune q False))))) = Inr out'"
    and op: "out_p' = out_p * ?w ! c"
    by (auto simp add: Let_def split: sum.splits if_splits)
  have lw: "length ?w = prod_list ?sh"
    by (simp add: arr(2) mn length_indices)
  let ?u = "unravel_index c ?sh"
  have c': "c < prod_list ?sh" using c lw by simp
  have u: "list_all2 (<) ?u ?sh" using c' by (rule unravel_in_range)
  have wc: "?w ! c = (if Re (?F ?u) / out_p < 0 then 0 else Re (?F ?u) / out_p)"
    using c' by (simp add: arr(2) mn length_indices nth_indices)
  from rng have "fst (rng g (length ?w) ?w) < length ?w \<longrightarrow> 0 < ?w ! fst (rng g (length ?w) ?w)"
    unfolding chooses_positive_def by blast
  then have "c < length ?w \<longrightarrow> 0 < ?w ! c"
    unfolding ch fst_conv .
  with c have "0 < ?w ! c" by blast
  with wc have "?w ! c = Re (?F ?u) / out_p"
    by (auto split: if_splits)
  with op nz have op': "out_p' = Re (?F ?u)" by simp
  have lu: "length ?u = ?N - n_out" by (simp add: unravel_index_length)
  from sl have out': "out' = take n_out out @ map word_of_nat ?u"
    using n len lu
    by (auto simp add: set_slice_def Let_def arr(1) mn min_def split: if_splits)
  have sm: "list_all (\<lambda>d. d \<le> 255) ?sh"
    using small by (auto simp add: list_all_iff dest: in_set_dropD)
  have un: "map unat out' = ?pre @ ?u"
    unfolding out' map_append unat_word_of_nat_list [OF u sm] ..
  have "map (\<lambda>w. [unat w]) out' = map (\<lambda>x. [x]) (map unat out')"
    by simp
  then have "map (\<lambda>w. [unat w]) out' = map (\<lambda>x. [x]) (?pre @ ?u)"
    unfolding un .
  with op' show "out_p' = Re (el probab (map (\<lambda>w. [unat w]) out'))" by simp
  have "list_all2 (<) ?pre (take (length ?pre) ds)"
    by (rule getitem_prefix(3) [OF pd lp' q])
  then have "list_all2 (<) ?pre (take n_out ds)"
    unfolding lp .
  then have "list_all2 (<) (?pre @ ?u) (take n_out ds @ drop n_out ds)"
    using u by (rule list_all2_appendI)
  with un show "list_all2 (<) (map unat out') ds" by simp
qed

lemma range_step_last:
  assumes "0 < n" "0 < step"
  shows "\<exists>ns m. range_step n step = ns @ [m] \<and> m < n \<and> n \<le> m + step"
proof -
  let ?q = "(n + step - 1) div step"
  have le: "?q * step \<le> n + step - 1" by simp
  have lt: "n + step - 1 < step + ?q * step"
    using assms(2) by (rule dividend_less_div_times)
  from lt assms have q: "0 < ?q" by (cases ?q) simp_all
  then have u: "[0..<?q] = [0..<?q - 1] @ [?q - 1]"
    by (cases ?q) simp_all
  have r: "range_step n step = map (\<lambda>k. k * step) [0..<?q - 1] @ [(?q - 1) * step]"
    unfolding range_step_def by (subst u) simp
  have e: "(?q - 1) * step + step = ?q * step"
    using q by (simp add: diff_mult_distrib)
  have a: "(?q - 1) * step < n" using le e assms by linarith
  have b: "n \<le> (?q - 1) * step + step" using lt e assms by linarith
  from r a b show ?thesis by blast
qed

lemma cond_loop_append:
  "cond_loop rng marginal_p n_group eps (ns @ [n]) st =
     (case cond_loop rng marginal_p n_group eps ns st of
        Inl e \<Rightarrow> Inl e
      | Inr st' \<Rightarrow> cond_step rng marginal_p n_group eps n st')"
  by (induction ns arbitrary: st) (auto split: sum.splits)

lemma cond_loop_result:
  assumes pd: "pdims probab = map (\<lambda>d. [d]) ds" and ne: "ds \<noteq> []"
      and small: "list_all (\<lambda>d. d \<le> 255) ds"
      and len: "length out = length ds"
      and g: "0 < n_group"
      and rng: "chooses_positive rng"
      and loop: "cond_loop rng (marginals probab) n_group eps (range_step (length ds) n_group) (out, 1, g)
                   = Inr (out', out_p, g')"
  shows "out_p = Re (el probab (map (\<lambda>w. [unat w]) out'))"
    and "list_all2 (<) (map unat out') ds"
proof -
  from ne have "0 < length ds" by simp
  from range_step_last [OF this g] obtain ns m where
    r: "range_step (length ds) n_group = ns @ [m]" and m: "m < length ds" "length ds \<le> m + n_group"
    by blast
  from loop obtain out1 p1 g1 where
    l1: "cond_loop rng (marginals probab) n_group eps ns (out, 1, g) = Inr (out1, p1, g1)"
    and s: "cond_step rng (marginals probab) n_group eps m (out1, p1, g1) = Inr (out', out_p, g')"
    unfolding r cond_loop_append by (auto split: sum.splits)
  have len1: "length out1 = length ds"
    using cond_loop_length [OF l1] len by simp
  show "out_p = Re (el probab (map (\<lambda>w. [unat w]) out'))"
    by (rule last_step(1) [OF pd small len1 m rng s])
  show "list_all2 (<) (map unat out') ds"
    by (rule last_step(2) [OF pd small len1 m rng s])
qed

lemma cond_step_error:
  "cond_step rng marginal_p n_group eps n_out st = Inl e
     \<Longrightarrow> e \<noteq> AssertionError ''abs(p - out_p) <= eps''"
  by (auto simp add: cond_step_def Let_def getitem_def set_slice_def
      split: prod.splits sum.splits if_splits)

lemma cond_loop_error:
  "cond_loop rng marginal_p n_group eps ns st = Inl e
     \<Longrightarrow> e \<noteq> AssertionError ''abs(p - out_p) <= eps''"
proof (induction ns arbitrary: st)
  case Nil
  then show ?case by simp
next
  case (Cons n ns)
  show ?case
  proof (cases "cond_step rng marginal_p n_group eps n st")
    case (Inl e')
    with Cons.prems have "e' = e" by simp
    with Inl show ?thesis by (auto dest: cond_step_error)
  next
    case (Inr st')
    with Cons.prems have "cond_loop rng marginal_p n_group eps ns st' = Inl e" by simp
    then show ?thesis by (rule Cons.IH)
  qed
qed

lemma getitem_error: "getitem items A = Inl e \<Longrightarrow> e = IndexError"
  by (auto simp add: getitem_def split: if_splits)

lemma cmod_minus_Re: "cmod (z - complex_of_real (Re z)) = \<bar>Im z\<bar>"
  by (simp add: cmod_def)

lemma final_assertion_passes:
  assumes pd: "pdims probab = map (\<lambda>d. [d]) ds" and ne: "ds \<noteq> []"
      and small: "list_all (\<lambda>d. d \<le> 255) ds"
      and re: "\<forall>i. list_all2 (<) i ds \<longrightarrow> \<bar>Im (el probab (map (\<lambda>x. [x]) i))\<bar> \<le> eps"
      and len: "length out = length ds"
      and rng: "chooses_positive rng"
  shows "sample_cond_single rng g (marginals probab) n_group out eps
           \<noteq> Inl (AssertionError ''abs(p - out_p) <= eps'')"
proof (cases "n_group = 0")
  case True
  then show ?thesis by (simp add: sample_cond_single_def Let_def)
next
  case False
  then have g: "0 < n_group" by simp
  have N: "len (last (marginals probab)) = length ds" "len probab = length ds"
    by (simp_all add: marginals_last len_def pd)
  show ?thesis
  proof (cases "cond_loop rng (marginals probab) n_group eps (range_step (length ds) n_group) (out, 1, g)")
    case (Inl e)
    then have "sample_cond_single rng g (marginals probab) n_group out eps = Inl e"
      using False by (simp add: sample_cond_single_def N)
    moreover have "e \<noteq> AssertionError ''abs(p - out_p) <= eps''"
      using Inl by (rule cond_loop_error)
    ultimately show ?thesis by simp
  next
    case (Inr st)
    obtain out' out_p g' where st: "st = (out', out_p, g')" by (cases st) auto
    note loop = Inr [unfolded st]
    note res = cond_loop_result [OF pd ne small len g rng loop]
    show ?thesis
    proof (cases "getitem (map (\<lambda>w. Some (unat w)) out') probab")
      case (Inl e)
      then have "e = IndexError" by (rule getitem_error)
      with Inl show ?thesis using False loop
        by (simp add: sample_cond_single_def N marginals_last)
    next
      case (Inr p)
      have l: "length (map unat out') = length ds"
        using res(2) by (auto dest: list_all2_lengthD)
      have gi: "getitem (map Some (map unat out')) probab = Inr p"
        using Inr by (simp add: comp_def)
      have h: "hd (flat (to_array p)) = el probab (map (\<lambda>x. [x]) (map unat out'))"
        by (rule full_item_array [OF pd l gi])
      have "out_p = Re (el probab (map (\<lambda>x. [x]) (map unat out')))"
        using res(1) by (simp add: comp_def)
      then have "cmod (hd (flat (to_array p)) - complex_of_real out_p)
                 = \<bar>Im (el probab (map (\<lambda>x. [x]) (map unat out')))\<bar>"
        unfolding h by (simp only: cmod_minus_Re)
      also have "\<dots> \<le> eps" using re res(2) by blast
      finally show ?thesis using False loop Inr
        by (simp add: sample_cond_single_def N marginals_last)
    qed
  qed
qed

subsection \<open>The marginals\<close>

lemma product_lists_map: "product_lists (map (map f) xss) = map (map f) (product_lists xss)"
  by (induction xss) (simp_all add: map_concat comp_def)

lemma indices_single: "indices [d] = map (\<lambda>x. [x]) [0..<d]"
  by (simp add: indices_def)

lemma site_indices_single: "site_indices (map (\<lambda>d. [d]) ds) = map (map (\<lambda>x. [x])) (indices ds)"
proof -
  have "map indices (map (\<lambda>d. [d]) ds) = map (map (\<lambda>x. [x])) (map (\<lambda>d. [0..<d]) ds)"
    by (simp add: indices_single)
  then show ?thesis
    unfolding site_indices_def indices_def by (simp only: product_lists_map)
qed

lemma sum_all_single:
  "pdims A = map (\<lambda>d. [d]) ds \<Longrightarrow>
     sum_all A = sum_list (map (\<lambda>i. el A (map (\<lambda>x. [x]) i)) (indices ds))"
  by (simp add: sum_all_def site_indices_single comp_def)

lemma indices_Cons: "indices (d # ds) = concat (map (\<lambda>j. map ((#) j) (indices ds)) [0..<d])"
  by (simp add: indices_def)

lemma sum_list_concat_map:
  "sum_list (concat xss) = sum_list (map sum_list xss)"
  by (induction xss) simp_all

lemma sum_indices_Cons:
  "sum_list (map f (indices (d # ds)))
     = sum_list (map (\<lambda>j. sum_list (map (\<lambda>suf. f (j # suf)) (indices ds))) [0..<d])"
  by (simp add: indices_Cons map_concat sum_list_concat_map comp_def)

lemma product_lists_trailing:
  "product_lists (replicate k [x] @ [ys]) = map (\<lambda>y. replicate k x @ [y]) ys"
  by (induction k) (simp_all add: comp_def)

lemma rest_axes_1: "rest_axes (Suc 0) [] = [0]"
  by (simp add: rest_axes_def)

lemma place_keep: "place (Suc 0) [] c [x] = [x]"
  by (simp add: place_def rest_axes_def index_of_def)

lemma place_take: "place (Suc 0) [0] [j] r = [j]"
  by (simp add: place_def index_of_def)

lemma sum_last:
  assumes pd: "pdims A = map (\<lambda>d. [d]) es @ [[d]]"
  shows "pdims (sum_axes (replicate (length es) [] @ [[0]]) A) = map (\<lambda>d. [d]) es @ [[]]"
    and "length pre = length es \<Longrightarrow>
         el (sum_axes (replicate (length es) [] @ [[0]]) A) (map (\<lambda>x. [x]) pre @ [t])
           = sum_list (map (\<lambda>j. el A (map (\<lambda>x. [x]) (pre @ [j]))) [0..<d])"
proof -
  let ?k = "length es"
  let ?axes = "replicate ?k [] @ [[0 :: nat]]"
  have lenA: "length (pdims A) = Suc ?k" by (simp add: pd)
  have site1: "pdims A ! s = [es ! s]" if "s < ?k" for s
    using that by (simp add: pd nth_append)
  have site2: "pdims A ! ?k = [d]"
    by (simp add: pd nth_append)
  have ax1: "?axes ! s = []" if "s < ?k" for s
    using that by (simp add: nth_append)
  have ax2: "?axes ! ?k = [0]"
    by (simp add: nth_append)
  have "map (\<lambda>s. map ((!) (pdims A ! s)) (rest_axes (length (pdims A ! s)) (?axes ! s))) [0..<?k]
        = map (\<lambda>d. [d]) es"
    by (rule nth_equalityI) (simp_all add: site1 ax1 rest_axes_1)
  moreover have "map ((!) (pdims A ! ?k)) (rest_axes (length (pdims A ! ?k)) (?axes ! ?k)) = []"
    by (simp only: site2 ax2) (simp add: rest_axes_1_0)
  ultimately show "pdims (sum_axes ?axes A) = map (\<lambda>d. [d]) es @ [[]]"
    unfolding sum_axes_def Let_def lenA by (simp only: mpa.simps upt_Suc_append le0 map_append list.map)
  assume lp: "length pre = ?k"
  let ?idx = "map (\<lambda>x. [x]) pre @ [t]"
  have "map (\<lambda>s. map ((!) (pdims A ! s)) (?axes ! s)) [0..<?k] = replicate ?k []"
    by (rule nth_equalityI) (simp_all add: ax1)
  moreover have "map ((!) (pdims A ! ?k)) (?axes ! ?k) = [d]"
    by (simp only: site2 ax2) simp
  ultimately have cd: "map (\<lambda>s. map ((!) (pdims A ! s)) (?axes ! s)) [0..<Suc ?k] = replicate ?k [] @ [[d]]"
    by (simp only: upt_Suc_append le0 map_append list.map)
  have si: "site_indices (replicate ?k [] @ [[d]]) = map (\<lambda>j. replicate ?k [] @ [[j]]) [0..<d]"
    by (simp add: site_indices_def indices_single product_lists_trailing comp_def
        indices_def)
  have pl: "map (\<lambda>s. place (length (pdims A ! s)) (?axes ! s) ((replicate ?k [] @ [[j]]) ! s) (?idx ! s))
              [0..<Suc ?k] = map (\<lambda>x. [x]) (pre @ [j])" for j
  proof -
    have "map (\<lambda>s. place (length (pdims A ! s)) (?axes ! s) ((replicate ?k [] @ [[j]]) ! s) (?idx ! s))
            [0..<?k] = map (\<lambda>x. [x]) pre"
      by (rule nth_equalityI) (simp_all add: lp site1 ax1 nth_append place_keep)
    moreover have "place (length (pdims A ! ?k)) (?axes ! ?k) ((replicate ?k [] @ [[j]]) ! ?k) (?idx ! ?k) = [j]"
      by (simp only: site2 ax2) (simp add: nth_append place_take)
    ultimately show ?thesis
      by (simp only: upt_Suc_append le0 map_append list.map)
  qed
  show "el (sum_axes ?axes A) ?idx = sum_list (map (\<lambda>j. el A (map (\<lambda>x. [x]) (pre @ [j]))) [0..<d])"
    unfolding sum_axes_def Let_def lenA
    by (simp only: mpa.simps cd si map_map comp_def pl)
qed

lemma unprune_trailing:
  "length idx = length es \<Longrightarrow> unprune (map (\<lambda>d. [d]) es @ [[]]) idx = idx @ [[]]"
  by (induction es idx rule: list_induct2') simp_all

text \<open>The index of an entry of \<^verbatim>\<open>marginal_p[k]\<close>: the scalar \<^verbatim>\<open>marginal_p[0]\<close> is a
  site without legs.\<close>

definition marginal_index :: "nat list \<Rightarrow> nat list list" where
  "marginal_index pre = (if pre = [] then [[]] else map (\<lambda>x. [x]) pre)"

lemma marginal_step:
  assumes pd: "pdims probab = map (\<lambda>d. [d]) ds" and j: "j \<le> length ds" and ne: "ds \<noteq> []"
  shows "(length ds - j \<noteq> 0 \<longrightarrow> pdims (hd (marginal_from probab j)) = map (\<lambda>d. [d]) (take (length ds - j) ds))
       \<and> (\<forall>pre. length pre = length ds - j \<longrightarrow>
            el (hd (marginal_from probab j)) (marginal_index pre)
              = sum_list (map (\<lambda>suf. el probab (map (\<lambda>x. [x]) (pre @ suf)))
                  (indices (drop (length ds - j) ds))))"
  using j
proof (induction j)
  case 0
  have "indices (drop (length ds) ds) = [[]]" by (simp add: indices_def)
  then show ?case using ne by (auto simp add: pd marginal_index_def)
next
  case (Suc j)
  let ?N = "length ds"
  let ?k = "?N - Suc j"
  let ?m = "hd (marginal_from probab j)"
  let ?p = "sum_axes (replicate ?k [] @ [[0]]) ?m"
  from Suc.prems have k: "?N - j = Suc ?k" "?k < ?N" by simp_all
  have N: "len probab = ?N" by (simp add: len_def pd)
  from Suc have pm: "pdims ?m = map (\<lambda>d. [d]) (take (Suc ?k) ds)"
    and em: "\<And>pre. length pre = Suc ?k \<Longrightarrow> el ?m (marginal_index pre)
              = sum_list (map (\<lambda>suf. el probab (map (\<lambda>x. [x]) (pre @ suf))) (indices (drop (Suc ?k) ds)))"
    by (simp_all add: k)
  have tk: "take (Suc ?k) ds = take ?k ds @ [ds ! ?k]"
    using k(2) by (rule take_Suc_conv_app_nth)
  have pm': "pdims ?m = map (\<lambda>d. [d]) (take ?k ds) @ [[ds ! ?k]]"
    by (simp add: pm tk)
  have lk: "length (take ?k ds) = ?k" using k(2) by simp
  note sl = sum_last [OF pm', unfolded lk]
  have hd: "hd (marginal_from probab (Suc j)) = (if 0 < ?k then prune ?p False else ?p)"
    by (simp add: Let_def N)
  have dk: "drop ?k ds = ds ! ?k # drop (Suc ?k) ds"
    using k(2) by (simp add: Cons_nth_drop_Suc)
  have val: "el ?p (map (\<lambda>x. [x]) pre @ [t])
             = sum_list (map (\<lambda>suf. el probab (map (\<lambda>x. [x]) (pre @ suf))) (indices (drop ?k ds)))"
    if "length pre = ?k" for pre t
  proof -
    have "el ?p (map (\<lambda>x. [x]) pre @ [t])
          = sum_list (map (\<lambda>j. el ?m (map (\<lambda>x. [x]) (pre @ [j]))) [0..<ds ! ?k])"
      using that by (rule sl(2))
    also have "\<dots> = sum_list (map (\<lambda>j. sum_list (map (\<lambda>suf. el probab (map (\<lambda>x. [x]) ((pre @ [j]) @ suf)))
                          (indices (drop (Suc ?k) ds)))) [0..<ds ! ?k])"
    proof -
      have "el ?m (map (\<lambda>x. [x]) (pre @ [j]))
            = sum_list (map (\<lambda>suf. el probab (map (\<lambda>x. [x]) ((pre @ [j]) @ suf)))
                          (indices (drop (Suc ?k) ds)))" for j
        using em [of "pre @ [j]"] that by (simp add: marginal_index_def)
      then show ?thesis by simp
    qed
    also have "\<dots> = sum_list (map (\<lambda>suf. el probab (map (\<lambda>x. [x]) (pre @ suf))) (indices (drop ?k ds)))"
      unfolding dk sum_indices_Cons by simp
    finally show ?thesis .
  qed
  show ?case
  proof (cases "0 < ?k")
    case True
    have pp: "pdims (prune ?p False) = map (\<lambda>d. [d]) (take ?k ds)"
      by (simp add: prune_def sl(1) comp_def)
    have e: "el (prune ?p False) (marginal_index pre)
          = sum_list (map (\<lambda>suf. el probab (map (\<lambda>x. [x]) (pre @ suf))) (indices (drop ?k ds)))"
      if "length pre = ?k" for pre
    proof -
      from that True have "pre \<noteq> []" by auto
      then have mi: "marginal_index pre = map (\<lambda>x. [x]) pre" by (simp add: marginal_index_def)
      have "el (prune ?p False) (map (\<lambda>x. [x]) pre) = el ?p (map (\<lambda>x. [x]) pre @ [[]])"
        using that lk by (simp add: prune_def sl(1) unprune_trailing)
      with val [OF that] mi show ?thesis by simp
    qed
    have h: "hd (marginal_from probab (Suc j)) = prune ?p False"
      using True by (simp only: hd if_True)
    show ?thesis unfolding h using pp e by blast
  next
    case False
    then have z: "?k = 0" by simp
    have e: "el ?p (marginal_index pre)
          = sum_list (map (\<lambda>suf. el probab (map (\<lambda>x. [x]) (pre @ suf))) (indices (drop ?k ds)))"
      if "length pre = ?k" for pre
    proof -
      from that z have "pre = []" by simp
      with val [OF that, of "[]"] show ?thesis by (simp add: marginal_index_def)
    qed
    have h: "hd (marginal_from probab (Suc j)) = ?p"
      using False by (simp only: hd if_False)
    show ?thesis unfolding h using z e by blast
  qed
qed

lemma nth_marginal_from:
  "j \<le> n \<Longrightarrow> marginal_from probab n ! (n - j) = hd (marginal_from probab j)"
proof (induction n)
  case 0
  then show ?case by simp
next
  case (Suc n)
  show ?case
  proof (cases "j = Suc n")
    case True
    then show ?thesis by (simp add: Let_def)
  next
    case False
    with Suc.prems have "j \<le> n" by simp
    then have "Suc n - j = Suc (n - j)" by simp
    with Suc.IH [OF \<open>j \<le> n\<close>] show ?thesis by (simp add: Let_def)
  qed
qed

lemma marginals_nth:
  assumes pd: "pdims probab = map (\<lambda>d. [d]) ds" and ne: "ds \<noteq> []"
      and k: "k \<le> length ds" "length pre = k"
  shows "el (marginals probab ! k) (marginal_index pre)
           = sum_list (map (\<lambda>suf. el probab (map (\<lambda>x. [x]) (pre @ suf))) (indices (drop k ds)))"
proof -
  let ?N = "length ds"
  have N: "len probab = ?N" by (simp add: len_def pd)
  have j: "?N - k \<le> ?N" by simp
  have "marginals probab ! k = hd (marginal_from probab (?N - k))"
    using nth_marginal_from [OF j, of probab] k(1) by (simp add: marginals_def N)
  moreover have "?N - (?N - k) = k" using k(1) by simp
  ultimately show ?thesis
    using marginal_step [OF pd j ne] k(2) by simp
qed

lemma marginal_zero:
  assumes pd: "pdims probab = map (\<lambda>d. [d]) ds" and ne: "ds \<noteq> []"
  shows "el (hd (marginals probab)) [[]] = sum_all probab"
proof -
  have "marginals probab \<noteq> []"
    using marginal_from_last [of probab "len probab"] by (auto simp add: marginals_def)
  then have "hd (marginals probab) = marginals probab ! 0" by (simp add: hd_conv_nth)
  with marginals_nth [OF pd ne, of 0 "[]"] show ?thesis
    by (simp add: marginal_index_def sum_all_single [OF pd])
qed

end
